theory Spec2Isabelle
  imports Main
begin

section \<open>Strings and characters\<close>

text \<open>
  A Python \<open>str\<close> is a sequence of Unicode code points, so a character is a natural
  number and \<open>len\<close>, slicing and \<open>re\<close> count code points. \<open>ustr\<close> embeds an ASCII
  literal. The classification of the code points from 128 on (\<open>str.isalnum\<close>,
  \<open>str.isspace\<close>) is a table of the Python runtime, not of this repository: it is the
  parameter \<open>U\<close> of every function that depends on it. The ASCII part is written out.
\<close>

type_synonym uchar = nat
type_synonym ustring = "nat list"

definition ustr :: "string \<Rightarrow> ustring" where
  "ustr s = map of_char s"

record unicode =
  uni_alnum :: "uchar \<Rightarrow> bool"
  uni_space :: "uchar \<Rightarrow> bool"

definition ascii_alnum :: "uchar \<Rightarrow> bool" where
  "ascii_alnum c =
     ((of_char CHR ''a'' \<le> c \<and> c \<le> of_char CHR ''z'') \<or>
      (of_char CHR ''A'' \<le> c \<and> c \<le> of_char CHR ''Z'') \<or>
      (of_char CHR ''0'' \<le> c \<and> c \<le> of_char CHR ''9''))"

definition ascii_space :: "uchar \<Rightarrow> bool" where
  "ascii_space c = (c = 32 \<or> (9 \<le> c \<and> c \<le> 13) \<or> (28 \<le> c \<and> c \<le> 31))"

definition is_word :: "unicode \<Rightarrow> uchar \<Rightarrow> bool" where
  "is_word U c =
     (if c < 128 then ascii_alnum c \<or> c = of_char CHR ''_'' else uni_alnum U c)"

definition is_space :: "unicode \<Rightarrow> uchar \<Rightarrow> bool" where
  "is_space U c = (if c < 128 then ascii_space c else uni_space U c)"

definition strip :: "unicode \<Rightarrow> ustring \<Rightarrow> ustring" where
  "strip U s = rev (dropWhile (is_space U) (rev (dropWhile (is_space U) s)))"

fun join :: "ustring \<Rightarrow> ustring list \<Rightarrow> ustring" where
  "join sep [] = []"
| "join sep [x] = x"
| "join sep (x # y # ys) = x @ sep @ join sep (y # ys)"

fun dec :: "nat \<Rightarrow> ustring" where
  "dec n = (if n < 10 then [48 + n] else dec (n div 10) @ [48 + n mod 10])"


definition py_str_opt :: "ustring option \<Rightarrow> ustring" where
  "py_str_opt v = (case v of None \<Rightarrow> ustr ''None'' | Some s \<Rightarrow> s)"

definition truthy_str :: "ustring option \<Rightarrow> bool" where
  "truthy_str v = (case v of None \<Rightarrow> False | Some s \<Rightarrow> s \<noteq> [])"


fun py_enumerate :: "int \<Rightarrow> 'a list \<Rightarrow> (int \<times> 'a) list" where
  "py_enumerate i [] = []"
| "py_enumerate i (x # xs) = (i, x) # py_enumerate (i + 1) xs"


datatype error =
    ValueError ustring
  | TypeError
  | RuntimeError ustring
  | WorksheetNotFound

definition error_str :: "error \<Rightarrow> ustring" where
  "error_str e =
     (case e of
        ValueError m \<Rightarrow> m
      | TypeError \<Rightarrow> ustr ''TypeError''
      | RuntimeError m \<Rightarrow> m
      | WorksheetNotFound \<Rightarrow> [])"

section \<open>playlist\_to\_sheets.py: identifier extraction\<close>

definition split_first :: "uchar \<Rightarrow> ustring \<Rightarrow> ustring" where
  "split_first sep s = takeWhile (\<lambda>c. c \<noteq> sep) s"

definition strip_query_fragment :: "ustring \<Rightarrow> ustring" where
  "strip_query_fragment playlist_url =
     split_first (of_char CHR ''#'') (split_first (of_char CHR ''?'') playlist_url)"

definition match_here :: "ustring \<Rightarrow> ustring \<Rightarrow> ustring option" where
  "match_here lit s =
     (if take (length lit) s = lit
      then (let g = takeWhile ascii_alnum (drop (length lit) s)
            in if g = [] then None else Some g)
      else None)"

fun re_search :: "ustring \<Rightarrow> ustring \<Rightarrow> ustring option" where
  "re_search lit [] = match_here lit []"
| "re_search lit (c # cs) =
     (case match_here lit (c # cs) of
        Some g \<Rightarrow> Some g
      | None \<Rightarrow> re_search lit cs)"

definition path_pattern :: ustring where
  "path_pattern = ustr ''playlist/''"

definition uri_pattern :: ustring where
  "uri_pattern = ustr ''playlist:''"

definition patterns :: "ustring list" where
  "patterns = [path_pattern, uri_pattern]"

fun try_patterns :: "ustring list \<Rightarrow> ustring \<Rightarrow> ustring option" where
  "try_patterns [] s = None"
| "try_patterns (p # ps) s =
     (case re_search p s of
        Some g \<Rightarrow> Some g
      | None \<Rightarrow> try_patterns ps s)"

definition extract_playlist_id :: "ustring \<Rightarrow> error + ustring" where
  "extract_playlist_id playlist_url =
     (let url = strip_query_fragment playlist_url
      in case try_patterns patterns url of
           Some g \<Rightarrow> Inr g
         | None \<Rightarrow>
             Inl (ValueError (ustr ''Could not extract playlist ID from URL: '' @ url)))"

text \<open>
  What the two regular expressions mean, for the comparison with \<open>re_search\<close>: the
  literal occurs at offset \<open>i\<close> and an ASCII letter or digit follows it; the captured
  group is the longest run of such characters after the literal.
\<close>

definition pattern_at :: "ustring \<Rightarrow> ustring \<Rightarrow> nat \<Rightarrow> bool" where
  "pattern_at lit s i =
     (i + length lit < length s \<and> take (length lit) (drop i s) = lit \<and>
      ascii_alnum (s ! (i + length lit)))"

definition group_at :: "ustring \<Rightarrow> ustring \<Rightarrow> nat \<Rightarrow> ustring" where
  "group_at lit s i = takeWhile ascii_alnum (drop (i + length lit) s)"

section \<open>playlist\_to\_sheets.py: retrieval and normalization\<close>

text \<open>
  The API's JSON objects, with the fields the scripts read. A field the code tests
  for \<open>None\<close> is an option. \<open>next_url\<close> is the page's \<open>next\<close> entry.
\<close>

record artist =
  artist_name :: ustring

record track =
  name :: "ustring option"
  artists :: "artist list"
  spotify :: ustring

record item =
  added_at :: ustring
  track :: "track option"

record page =
  items :: "item list"
  next_url :: "ustring option"

record song_row =
  song :: ustring
  spotify_url :: ustring

definition song_of_track :: "track \<Rightarrow> song_row" where
  "song_of_track t =
     \<lparr> song = py_str_opt (name t) @ ustr '' - '' @
                join (ustr '', '') (map artist_name (artists t)),
       spotify_url = spotify t \<rparr>"

fun collect_items :: "item list \<Rightarrow> song_row list \<Rightarrow> song_row list" where
  "collect_items [] tracks = tracks"
| "collect_items (it # its) tracks =
     collect_items its
       (case track it of
          None \<Rightarrow> tracks
        | Some t \<Rightarrow> if truthy_str (name t) then tracks @ [song_of_track t] else tracks)"

text \<open>
  The client: \<open>playlist_name\<close> is \<open>sp.playlist(id)['name']\<close>, \<open>playlist_tracks\<close> the
  first page and \<open>get_page\<close> what \<open>sp.next\<close> fetches from a page's \<open>next\<close> URL; \<open>None\<close>
  is the Python \<open>None\<close> that ends \<open>while results\<close>. The loop may run forever on a
  server whose pages form a cycle, so it is partial; it also returns the URLs it
  requested, in order.
\<close>

record spotify_api =
  playlist_name :: "ustring \<Rightarrow> ustring"
  playlist_tracks :: "ustring \<Rightarrow> page option"
  get_page :: "ustring \<Rightarrow> page option"

partial_function (option) fetch_pages ::
  "(ustring \<Rightarrow> page option) \<Rightarrow> page option \<Rightarrow> song_row list \<Rightarrow> ustring list \<Rightarrow>
   (song_row list \<times> ustring list) option" where
  "fetch_pages get results tracks requested =
     (case results of
        None \<Rightarrow> Some (tracks, requested)
      | Some r \<Rightarrow>
          (case next_url r of
             None \<Rightarrow> Some (collect_items (items r) tracks, requested)
           | Some u \<Rightarrow>
               if u \<noteq> []
               then fetch_pages get (get u) (collect_items (items r) tracks) (requested @ [u])
               else Some (collect_items (items r) tracks, requested)))"

definition get_playlist_data ::
  "spotify_api \<Rightarrow> ustring \<Rightarrow> (error + (ustring \<times> song_row list)) option" where
  "get_playlist_data sp playlist_url =
     (case extract_playlist_id playlist_url of
        Inl e \<Rightarrow> Some (Inl e)
      | Inr playlist_id \<Rightarrow>
          (case fetch_pages (get_page sp) (playlist_tracks sp playlist_id) [] [] of
             None \<Rightarrow> None
           | Some (tracks, requested) \<Rightarrow> Some (Inr (playlist_name sp playlist_id, tracks))))"

text \<open>
  For the claims: a record is dropped when its track is null or its title is null or
  empty; a server serves the finite page sequence \<open>p, qs\<close> when every page but the last
  has \<open>next\<close> set to the URL of the following page and the last has it unset.
\<close>

definition dropped :: "item \<Rightarrow> bool" where
  "dropped it =
     (case track it of None \<Rightarrow> True | Some t \<Rightarrow> name t = None \<or> name t = Some [])"

definition kept_track :: "item \<Rightarrow> track" where
  "kept_track it = (case track it of Some t \<Rightarrow> t | None \<Rightarrow> \<lparr> name = None, artists = [], spotify = [] \<rparr>)"

fun serves :: "(ustring \<Rightarrow> page option) \<Rightarrow> page \<Rightarrow> page list \<Rightarrow> bool" where
  "serves get p [] = (\<not> truthy_str (next_url p))"
| "serves get p (q # qs) =
     (case next_url p of
        None \<Rightarrow> False
      | Some u \<Rightarrow> u \<noteq> [] \<and> get u = Some q \<and> serves get q qs)"

fun next_urls :: "page list \<Rightarrow> ustring list" where
  "next_urls [] = []"
| "next_urls (p # ps) =
     (case next_url p of
        None \<Rightarrow> next_urls ps
      | Some u \<Rightarrow> if u \<noteq> [] then u # next_urls ps else next_urls ps)"

section \<open>The spreadsheet\<close>

text \<open>
  The spreadsheet service is an external collaborator; its operations are modelled by
  their documented contract: find a worksheet by exact title (raising
  \<open>WorksheetNotFound\<close>), delete a worksheet, append a new empty worksheet of given
  dimensions, write a block of values into a worksheet. A worksheet object is known to
  the service by its id. Every call is also recorded, in order, in \<open>calls\<close>.
\<close>

datatype cell = IntCell int | StrCell ustring

record worksheet =
  ws_id :: nat
  ws_title :: ustring
  ws_nrows :: nat
  ws_ncols :: nat
  ws_cells :: "cell list list"

datatype call =
    GetWorksheet ustring
  | DelWorksheet nat
  | AddWorksheet ustring nat nat
  | Update nat "cell list list"

record spreadsheet =
  sheets :: "worksheet list"
  calls :: "call list"
  url :: ustring

definition get_worksheet :: "spreadsheet \<Rightarrow> ustring \<Rightarrow> spreadsheet \<times> (error + worksheet)" where
  "get_worksheet ss t =
     (ss\<lparr>calls := calls ss @ [GetWorksheet t]\<rparr>,
      case find (\<lambda>w. ws_title w = t) (sheets ss) of
        None \<Rightarrow> Inl WorksheetNotFound
      | Some w \<Rightarrow> Inr w)"

definition del_worksheet :: "spreadsheet \<Rightarrow> worksheet \<Rightarrow> spreadsheet" where
  "del_worksheet ss w =
     ss\<lparr>sheets := filter (\<lambda>v. ws_id v \<noteq> ws_id w) (sheets ss),
        calls := calls ss @ [DelWorksheet (ws_id w)]\<rparr>"

definition fresh_id :: "spreadsheet \<Rightarrow> nat" where
  "fresh_id ss = Suc (fold max (map ws_id (sheets ss)) 0)"

definition add_worksheet ::
  "spreadsheet \<Rightarrow> ustring \<Rightarrow> nat \<Rightarrow> nat \<Rightarrow> spreadsheet \<times> worksheet" where
  "add_worksheet ss t r c =
     (let w = \<lparr>ws_id = fresh_id ss, ws_title = t, ws_nrows = r, ws_ncols = c, ws_cells = []\<rparr>
      in (ss\<lparr>sheets := sheets ss @ [w], calls := calls ss @ [AddWorksheet t r c]\<rparr>, w))"

definition update :: "spreadsheet \<Rightarrow> worksheet \<Rightarrow> cell list list \<Rightarrow> spreadsheet" where
  "update ss w rows =
     ss\<lparr>sheets := map (\<lambda>v. if ws_id v = ws_id w then v\<lparr>ws_cells := rows\<rparr> else v) (sheets ss),
        calls := calls ss @ [Update (ws_id w) rows]\<rparr>"

text \<open>
  Both scripts that write a worksheet start with the same \<open>try\<close> block: look the old
  worksheet up, delete it and print a line; \<open>WorksheetNotFound\<close> is caught and passed.
\<close>

definition delete_existing :: "spreadsheet \<Rightarrow> ustring \<Rightarrow> spreadsheet \<times> ustring list" where
  "delete_existing ss sheet_name =
     (case get_worksheet ss sheet_name of
        (ss1, Inr old_ws) \<Rightarrow>
          (del_worksheet ss1 old_ws,
           [ustr ''Deleted existing worksheet '' @ [39] @ sheet_name @ [39] @ ustr ''.''])
      | (ss1, Inl e) \<Rightarrow> (ss1, []))"

section \<open>playlist\_to\_sheets.py: the worksheet and main\<close>

definition remove_invalid :: "unicode \<Rightarrow> ustring \<Rightarrow> ustring" where
  "remove_invalid U s =
     filter (\<lambda>c. is_word U c \<or> is_space U c \<or> c = of_char CHR ''-'') s"

definition clean_sheet_name :: "unicode \<Rightarrow> ustring \<Rightarrow> ustring" where
  "clean_sheet_name U pl_name =
     (let sheet_name = strip U (remove_invalid U pl_name)
      in if length sheet_name > 100 then take 100 sheet_name else sheet_name)"

definition header :: "cell list" where
  "header = [StrCell (ustr ''Track #''), StrCell (ustr ''Song''), StrCell (ustr ''Spotify Link'')]"

definition sheet_rows :: "song_row list \<Rightarrow> cell list list" where
  "sheet_rows tracks =
     header #
     map (\<lambda>(i, t). [IntCell i, StrCell (song t), StrCell (spotify_url t)])
       (py_enumerate 1 tracks)"

definition create_sheets_worksheet ::
  "unicode \<Rightarrow> ustring \<Rightarrow> song_row list \<Rightarrow> spreadsheet \<Rightarrow> spreadsheet \<times> ustring list" where
  "create_sheets_worksheet U pl_name tracks ss =
     (let sheet_name = clean_sheet_name U pl_name;
          (ss1, deleted) = delete_existing ss sheet_name;
          (ss2, ws) = add_worksheet ss1 sheet_name (length tracks + 1) 3;
          ss3 = update ss2 ws (sheet_rows tracks)
      in (ss3,
          deleted @
          [ustr ''Created worksheet '' @ [39] @ sheet_name @ [39] @ ustr '' with '' @
             dec (length tracks) @ ustr '' tracks.'',
           ustr ''Spreadsheet URL: '' @ url ss3]))"

text \<open>
  A run of a script: what it printed (one entry per \<open>print\<close> call) and how it ended:
  by returning, by \<open>sys.exit\<close> with a message, or by an uncaught exception. A run of a
  script that writes a worksheet also has the spreadsheet it left behind (\<open>book\<close>); a
  run of the liked-tracks script has the limits of the requests it sent to the streaming
  API, in order (\<open>requests\<close>).
\<close>

datatype ending = Returned | Exited ustring | Raised error

record run =
  printed :: "ustring list"
  ending :: ending

record sheet_run = run +
  book :: spreadsheet


fun first_unset :: "(ustring \<Rightarrow> ustring option) \<Rightarrow> ustring list \<Rightarrow> ustring option" where
  "first_unset env [] = None"
| "first_unset env (v # vs) = (if truthy_str (env v) then first_unset env vs else Some v)"

definition not_set_message :: "ustring \<Rightarrow> ustring" where
  "not_set_message v = ustr ''Error: '' @ v @ ustr '' is not set in your .env or environment.''"

definition required_vars :: "ustring list" where
  "required_vars =
     [ustr ''SPOTIFY_CLIENT_ID'', ustr ''SPOTIFY_CLIENT_SECRET'', ustr ''SPOTIFY_REDIRECT_URI'',
      ustr ''GDRIVE_CREDENTIALS_PATH'', ustr ''SPREADSHEET_ID'']"

definition main_playlist ::
  "unicode \<Rightarrow> (ustring \<Rightarrow> ustring option) \<Rightarrow> ustring \<Rightarrow> spotify_api \<Rightarrow> spreadsheet \<Rightarrow> sheet_run option" where
  "main_playlist U env input_line sp ss =
     (case first_unset env required_vars of
        Some v \<Rightarrow>
          Some \<lparr>printed = [], ending = Exited (not_set_message v), book = ss\<rparr>
      | None \<Rightarrow>
          (let playlist_url = strip U input_line
           in if playlist_url = []
              then Some \<lparr>printed = [], ending = Exited (ustr ''Error: No playlist URL provided.''), book = ss\<rparr>
              else
                (case get_playlist_data sp playlist_url of
                   None \<Rightarrow> None
                 | Some (Inl e) \<Rightarrow>
                     Some \<lparr>printed = [ustr ''Fetching playlist data from Spotify...''],
                           ending = Exited (ustr ''Error: '' @ error_str e), book = ss\<rparr>
                 | Some (Inr (pl_name, tracks)) \<Rightarrow>
                     if tracks = []
                     then Some \<lparr>printed = [ustr ''Fetching playlist data from Spotify...'',
                                           ustr ''No tracks found in the playlist.''],
                                ending = Returned, book = ss\<rparr>
                     else
                       (let (ss', lines) = create_sheets_worksheet U pl_name tracks ss
                        in Some \<lparr>printed =
                                    [ustr ''Fetching playlist data from Spotify...'',
                                     ustr ''Found playlist '' @ [39] @ pl_name @ [39] @
                                       ustr '' with '' @ dec (length tracks) @ ustr '' tracks.'',
                                     ustr ''Creating Google Sheets worksheet...''] @
                                    lines @ [ustr ''Done!''],
                                  ending = Returned, book = ss'\<rparr>))))"

section \<open>tests/xml\_to\_sheets.py\<close>

text \<open>
  The script's input is the list of the document's \<open>TRACK\<close> elements, each an attribute
  mapping, in document order (parsing the file is the XML library's work), the
  configuration values it reads at start and today's date as \<open>strftime\<close> formats it.
\<close>

definition FIELDS :: "ustring list" where
  "FIELDS =
     [ustr ''TrackID'', ustr ''Name'', ustr ''Artist'',
      ustr ''Album'', ustr ''Genre'', ustr ''TotalTime'',
      ustr ''AverageBpm'', ustr ''DateAdded'',
      ustr ''PlayCount'', ustr ''Rating'', ustr ''Location'']"

definition attrib_get :: "(ustring \<Rightarrow> ustring option) \<Rightarrow> ustring \<Rightarrow> ustring \<Rightarrow> ustring" where
  "attrib_get attrib f d = (case attrib f of None \<Rightarrow> d | Some v \<Rightarrow> v)"

definition xml_row :: "(ustring \<Rightarrow> ustring option) \<Rightarrow> ustring list" where
  "xml_row attrib = map (\<lambda>f. attrib_get attrib f []) FIELDS"

definition xml_rows :: "(ustring \<Rightarrow> ustring option) list \<Rightarrow> ustring list list" where
  "xml_rows tracks = map xml_row tracks"

definition payload :: "ustring list list \<Rightarrow> ustring list list" where
  "payload rows = [FIELDS] @ rows"

definition xml_to_sheets ::
  "(ustring \<Rightarrow> ustring option) \<Rightarrow> ustring \<Rightarrow> (ustring \<Rightarrow> ustring option) list \<Rightarrow> spreadsheet \<Rightarrow> sheet_run" where
  "xml_to_sheets env today tracks ss =
     (if \<not> truthy_str (env (ustr ''REKORDBOX_XML_PATH''))
      then \<lparr>printed = [],
            ending = Raised (RuntimeError (ustr ''REKORDBOX_XML_PATH is not set in .env or environment'')), book = ss\<rparr>
      else if \<not> truthy_str (env (ustr ''GDRIVE_CREDENTIALS_PATH''))
      then \<lparr>printed = [],
            ending = Raised (RuntimeError (ustr ''GDRIVE_CREDENTIALS_PATH is not set in .env or environment'')), book = ss\<rparr>
      else if \<not> truthy_str (env (ustr ''SPREADSHEET_ID''))
      then \<lparr>printed = [],
            ending = Raised (RuntimeError (ustr ''SPREADSHEET_ID is not set in .env or environment'')), book = ss\<rparr>
      else
        (let rows = xml_rows tracks;
             sheet_name = today;
             (ss1, deleted) = delete_existing ss sheet_name;
             (ss2, ws) = add_worksheet ss1 sheet_name (length rows + 1) (length FIELDS);
             ss3 = update ss2 ws (map (map StrCell) (payload rows))
         in \<lparr>printed =
                [ustr ''Loading XML from '' @ py_str_opt (env (ustr ''REKORDBOX_XML_PATH'')) @ [8230],
                 ustr ''Found '' @ dec (length rows) @ ustr '' tracks.''] @
                deleted @
                [ustr ''Wrote '' @ dec (length rows) @ ustr '' rows to '' @ [39] @ sheet_name @
                   [39] @ ustr ''.'',
                 ustr ''Done! Your sheet is here:'',
                 url ss3],
              ending = Returned, book = ss3\<rparr>))"

section \<open>tests/spotify\_recent\_likes.py\<close>

















section \<open>Example inputs\<close>

text \<open>
  \<open>ascii_only\<close> is the classification of a runtime that knows no letter, digit or
  blank beyond ASCII; on ASCII strings every classification gives the same results.
\<close>

definition ascii_only :: unicode where
  "ascii_only = \<lparr>uni_alnum = (\<lambda>c. False), uni_space = (\<lambda>c. False)\<rparr>"

definition song0 :: song_row where
  "song0 = \<lparr>song = ustr ''Song - A, B'', spotify_url = ustr ''https://open.spotify.com/track/1''\<rparr>"

definition book0 :: spreadsheet where
  "book0 =
     \<lparr>sheets = [\<lparr>ws_id = 7, ws_title = ustr ''Mix'', ws_nrows = 1, ws_ncols = 3, ws_cells = []\<rparr>],
      calls = [], url = ustr ''https://sheets.example/1''\<rparr>"

definition empty_book :: spreadsheet where
  "empty_book = \<lparr>sheets = [], calls = [], url = ustr ''https://sheets.example/2''\<rparr>"

definition attrib0 :: "ustring \<Rightarrow> ustring option" where
  "attrib0 = map_of [(ustr ''TrackID'', ustr ''1''), (ustr ''Name'', ustr ''x''), (ustr ''Color'', ustr ''red'')]"

definition full_env :: "ustring \<Rightarrow> ustring option" where
  "full_env =
     map_of
       [(ustr ''SPOTIFY_CLIENT_ID'', ustr ''id''), (ustr ''SPOTIFY_CLIENT_SECRET'', ustr ''secret''),
        (ustr ''SPOTIFY_REDIRECT_URI'', ustr ''http://localhost''),
        (ustr ''GDRIVE_CREDENTIALS_PATH'', ustr ''creds.json''), (ustr ''SPREADSHEET_ID'', ustr ''sheet''),
        (ustr ''REKORDBOX_XML_PATH'', ustr ''lib.xml'')]"


definition track_a :: track where
  "track_a =
     \<lparr>name = Some (ustr ''Song''),
      artists = [\<lparr>artist_name = ustr ''A''\<rparr>, \<lparr>artist_name = ustr ''B''\<rparr>],
      spotify = ustr ''https://open.spotify.com/track/1''\<rparr>"

definition track_b :: track where
  "track_b =
     \<lparr>name = Some (ustr ''Tune''), artists = [\<lparr>artist_name = ustr ''C''\<rparr>],
      spotify = ustr ''https://open.spotify.com/track/2''\<rparr>"

definition item_a :: item where
  "item_a = \<lparr>added_at = ustr ''2024-01-02T03:04:05Z'', track = Some track_a\<rparr>"

definition item_b :: item where
  "item_b = \<lparr>added_at = ustr ''2024-01-01T10:20:30Z'', track = Some track_b\<rparr>"

definition item_null :: item where
  "item_null = \<lparr>added_at = ustr ''2024-01-01T00:00:00Z'', track = None\<rparr>"

definition item_untitled :: item where
  "item_untitled =
     \<lparr>added_at = ustr ''2024-01-01T00:00:00Z'',
      track = Some \<lparr>name = Some [], artists = [], spotify = ustr ''https://open.spotify.com/track/3''\<rparr>\<rparr>"

definition items0 :: "item list" where
  "items0 = [item_a, item_null, item_untitled, item_b]"

definition page2 :: page where
  "page2 = \<lparr>items = [item_b], next_url = None\<rparr>"

definition page1 :: page where
  "page1 = \<lparr>items = [item_a, item_null], next_url = Some (ustr ''https://api.example/p2'')\<rparr>"

definition server0 :: "ustring \<Rightarrow> page option" where
  "server0 = map_of [(ustr ''https://api.example/p2'', page2)]"

definition sp0 :: spotify_api where
  "sp0 =
     \<lparr>playlist_name = (\<lambda>i. ustr ''Mix!''),
      playlist_tracks = (\<lambda>i. Some page1),
      get_page = server0\<rparr>"

definition sp_empty :: spotify_api where
  "sp_empty =
     \<lparr>playlist_name = (\<lambda>i. ustr ''Empty''),
      playlist_tracks = (\<lambda>i. Some \<lparr>items = [item_null], next_url = None\<rparr>),
      get_page = (\<lambda>u. None)\<rparr>"








section \<open>Identifier extraction\<close>

lemma takeWhile_eq_Nil_hd: "(takeWhile P xs = []) = (xs = [] \<or> \<not> P (hd xs))"
  by (cases xs) auto

lemma match_here_pattern:
  "match_here lit s = (if pattern_at lit s 0 then Some (group_at lit s 0) else None)"
proof (cases "take (length lit) s = lit")
  case False
  then show ?thesis by (simp add: match_here_def pattern_at_def)
next
  case True
  show ?thesis
  proof (cases "length lit < length s")
    case False
    then have "drop (length lit) s = []" by simp
    with True False show ?thesis by (simp add: match_here_def pattern_at_def)
  next
    case lt: True
    then have "drop (length lit) s \<noteq> []" by simp
    moreover from lt have "hd (drop (length lit) s) = s ! length lit"
      by (simp add: hd_drop_conv_nth)
    ultimately show ?thesis using True lt
      by (simp add: match_here_def pattern_at_def group_at_def Let_def takeWhile_eq_Nil_hd)
  qed
qed

lemma pattern_at_Cons: "pattern_at lit (c # cs) (Suc i) = pattern_at lit cs i"
  by (simp add: pattern_at_def)

lemma group_at_Cons: "group_at lit (c # cs) (Suc i) = group_at lit cs i"
  by (simp add: group_at_def)

lemma not_pattern_at_Nil: "\<not> pattern_at lit [] i"
  by (simp add: pattern_at_def)

lemma re_search_leftmost:
  "pattern_at lit s i \<Longrightarrow> (\<forall>j<i. \<not> pattern_at lit s j) \<Longrightarrow>
   re_search lit s = Some (group_at lit s i)"
proof (induction s arbitrary: i)
  case Nil
  then show ?case by (simp add: not_pattern_at_Nil)
next
  case (Cons c cs)
  show ?case
  proof (cases i)
    case 0
    with Cons.prems show ?thesis by (simp add: match_here_pattern)
  next
    case (Suc k)
    with Cons.prems have no0: "\<not> pattern_at lit (c # cs) 0" by blast
    from Cons.prems Suc have pk: "pattern_at lit cs k" by (simp add: pattern_at_Cons)
    have "\<forall>j<k. \<not> pattern_at lit cs j"
    proof (intro allI impI)
      fix j assume "j < k"
      then have "Suc j < i" using Suc by simp
      with Cons.prems(2) have "\<not> pattern_at lit (c # cs) (Suc j)" by blast
      then show "\<not> pattern_at lit cs j" by (simp add: pattern_at_Cons)
    qed
    with pk have "re_search lit cs = Some (group_at lit cs k)" by (rule Cons.IH)
    with no0 Suc show ?thesis by (simp add: match_here_pattern group_at_Cons)
  qed
qed

lemma re_search_none:
  "(\<forall>j<length s. \<not> pattern_at lit s j) \<Longrightarrow> re_search lit s = None"
proof (induction s)
  case Nil
  then show ?case by (simp add: match_here_pattern not_pattern_at_Nil)
next
  case (Cons c cs)
  then have no0: "\<not> pattern_at lit (c # cs) 0" by simp
  have "\<forall>j<length cs. \<not> pattern_at lit cs j"
  proof (intro allI impI)
    fix j assume "j < length cs"
    then have "Suc j < length (c # cs)" by simp
    with Cons.prems have "\<not> pattern_at lit (c # cs) (Suc j)" by blast
    then show "\<not> pattern_at lit cs j" by (simp add: pattern_at_Cons)
  qed
  then have "re_search lit cs = None" by (rule Cons.IH)
  with no0 show ?case by (simp add: match_here_pattern)
qed

lemma re_search_None_D:
  "re_search lit s = None \<Longrightarrow> \<forall>j<length s. \<not> pattern_at lit s j"
proof (induction s)
  case Nil
  show ?case by simp
next
  case (Cons c cs)
  from Cons.prems have no0: "\<not> pattern_at lit (c # cs) 0"
    by (auto simp: match_here_pattern split: if_splits option.splits)
  from Cons.prems have "re_search lit cs = None"
    by (auto simp: match_here_pattern split: if_splits option.splits)
  then have ih: "\<forall>j<length cs. \<not> pattern_at lit cs j" by (rule Cons.IH)
  show ?case
  proof (intro allI impI)
    fix j assume "j < length (c # cs)"
    show "\<not> pattern_at lit (c # cs) j"
    proof (cases j)
      case 0
      with no0 show ?thesis by simp
    next
      case (Suc k)
      with \<open>j < length (c # cs)\<close> ih show ?thesis by (simp add: pattern_at_Cons)
    qed
  qed
qed

lemma re_search_Some_alnum:
  "re_search lit s = Some g \<Longrightarrow> g \<noteq> [] \<and> list_all ascii_alnum g"
proof (induction s)
  case Nil
  then show ?case
    by (simp add: match_here_def Let_def split: if_splits)
next
  case (Cons c cs)
  show ?case
  proof (cases "match_here lit (c # cs)")
    case None
    with Cons show ?thesis by simp
  next
    case (Some h)
    with Cons.prems have "h = g" by simp
    with Some show ?thesis
      by (auto simp: match_here_def Let_def list_all_iff split: if_splits dest: set_takeWhileD)
  qed
qed

lemma takeWhile2_rest:
  "\<exists>rest. xs = takeWhile (\<lambda>c. c \<noteq> b) (takeWhile (\<lambda>c. c \<noteq> a) xs) @ rest \<and>
     (rest = [] \<or> hd rest = a \<or> hd rest = b)"
proof (induction xs)
  case Nil
  show ?case by simp
next
  case (Cons x xs)
  then obtain rest where
    r: "xs = takeWhile (\<lambda>c. c \<noteq> b) (takeWhile (\<lambda>c. c \<noteq> a) xs) @ rest"
       "rest = [] \<or> hd rest = a \<or> hd rest = b"
    by (elim exE conjE)
  show ?case
  proof (cases "x = a \<or> x = b")
    case True
    have h: "x # xs = takeWhile (\<lambda>c. c \<noteq> b) (takeWhile (\<lambda>c. c \<noteq> a) (x # xs)) @ (x # xs)"
      using True by auto
    have h2: "x # xs = [] \<or> hd (x # xs) = a \<or> hd (x # xs) = b" using True by simp
    show ?thesis by (rule exI[of _ "x # xs"], rule conjI, rule h, rule h2)
  next
    case False
    have h: "x # xs = takeWhile (\<lambda>c. c \<noteq> b) (takeWhile (\<lambda>c. c \<noteq> a) (x # xs)) @ rest"
      using False r(1) by simp
    show ?thesis by (rule exI[of _ rest], rule conjI, rule h, rule r(2))
  qed
qed

lemma strip_query_fragment_prefix:
  "\<exists>rest. s = strip_query_fragment s @ rest \<and>
     (rest = [] \<or> hd rest = of_char CHR ''?'' \<or> hd rest = of_char CHR ''#'')"
  unfolding strip_query_fragment_def split_first_def
  by (rule takeWhile2_rest)

lemma split_first_clean: "sep \<notin> set (split_first sep s)"
  unfolding split_first_def by (induction s) auto

lemma split_first_subset: "set (split_first sep s) \<subseteq> set s"
  unfolding split_first_def by (induction s) auto

lemma strip_query_fragment_clean:
  "of_char CHR ''?'' \<notin> set (strip_query_fragment s) \<and> of_char CHR ''#'' \<notin> set (strip_query_fragment s)"
proof -
  let ?t = "split_first (of_char CHR ''?'') s"
  have "of_char CHR ''?'' \<notin> set ?t" by (rule split_first_clean)
  moreover have "set (split_first (of_char CHR ''#'') ?t) \<subseteq> set ?t" by (rule split_first_subset)
  moreover have "of_char CHR ''#'' \<notin> set (split_first (of_char CHR ''#'') ?t)" by (rule split_first_clean)
  ultimately show ?thesis unfolding strip_query_fragment_def by auto
qed

text \<open>
  Claim C1. For every input string \<open>raw\<close>, \<open>extract_playlist_id\<close> works on the longest
  prefix of \<open>raw\<close> that holds neither \<open>?\<close> nor \<open>#\<close>. If the URL-path pattern
  \<open>playlist/<ID>\<close> occurs there, the result is the identifier captured at its leftmost
  occurrence; otherwise, if the URI pattern \<open>playlist:<ID>\<close> occurs, the identifier
  captured at that pattern's leftmost occurrence; if neither occurs, the function raises
  \<open>ValueError\<close>. A returned identifier is a non-empty run of ASCII letters and digits.
\<close>

theorem extract_playlist_id_spec:
  "(pattern_at path_pattern (strip_query_fragment raw) i \<and>
      (\<forall>j<i. \<not> pattern_at path_pattern (strip_query_fragment raw) j)
    \<longrightarrow> extract_playlist_id raw = Inr (group_at path_pattern (strip_query_fragment raw) i)) \<and>
   ((\<forall>j<length (strip_query_fragment raw). \<not> pattern_at path_pattern (strip_query_fragment raw) j) \<and>
      pattern_at uri_pattern (strip_query_fragment raw) i \<and>
      (\<forall>j<i. \<not> pattern_at uri_pattern (strip_query_fragment raw) j)
    \<longrightarrow> extract_playlist_id raw = Inr (group_at uri_pattern (strip_query_fragment raw) i)) \<and>
   ((\<forall>j<length (strip_query_fragment raw). \<not> pattern_at path_pattern (strip_query_fragment raw) j) \<and>
      (\<forall>j<length (strip_query_fragment raw). \<not> pattern_at uri_pattern (strip_query_fragment raw) j)
    \<longrightarrow> extract_playlist_id raw =
          Inl (ValueError (ustr ''Could not extract playlist ID from URL: '' @ strip_query_fragment raw))) \<and>
   (\<exists>rest. raw = strip_query_fragment raw @ rest \<and>
      (rest = [] \<or> hd rest = of_char CHR ''?'' \<or> hd rest = of_char CHR ''#'')) \<and>
   of_char CHR ''?'' \<notin> set (strip_query_fragment raw) \<and>
   of_char CHR ''#'' \<notin> set (strip_query_fragment raw) \<and>
   (\<forall>g. extract_playlist_id raw = Inr g \<longrightarrow> g \<noteq> [] \<and> list_all ascii_alnum g)"
proof (intro conjI impI allI)
  assume "pattern_at path_pattern (strip_query_fragment raw) i \<and>
      (\<forall>j<i. \<not> pattern_at path_pattern (strip_query_fragment raw) j)"
  then have "re_search path_pattern (strip_query_fragment raw) =
      Some (group_at path_pattern (strip_query_fragment raw) i)"
    by (intro re_search_leftmost) simp_all
  then show "extract_playlist_id raw = Inr (group_at path_pattern (strip_query_fragment raw) i)"
    by (simp add: extract_playlist_id_def patterns_def)
next
  assume a: "(\<forall>j<length (strip_query_fragment raw). \<not> pattern_at path_pattern (strip_query_fragment raw) j) \<and>
      pattern_at uri_pattern (strip_query_fragment raw) i \<and>
      (\<forall>j<i. \<not> pattern_at uri_pattern (strip_query_fragment raw) j)"
  then have "re_search path_pattern (strip_query_fragment raw) = None"
    by (intro re_search_none) simp
  moreover from a have "re_search uri_pattern (strip_query_fragment raw) =
      Some (group_at uri_pattern (strip_query_fragment raw) i)"
    by (intro re_search_leftmost) simp_all
  ultimately show "extract_playlist_id raw = Inr (group_at uri_pattern (strip_query_fragment raw) i)"
    by (simp add: extract_playlist_id_def patterns_def)
next
  assume a: "(\<forall>j<length (strip_query_fragment raw). \<not> pattern_at path_pattern (strip_query_fragment raw) j) \<and>
      (\<forall>j<length (strip_query_fragment raw). \<not> pattern_at uri_pattern (strip_query_fragment raw) j)"
  then have "re_search path_pattern (strip_query_fragment raw) = None"
    by (intro re_search_none) simp
  moreover from a have "re_search uri_pattern (strip_query_fragment raw) = None"
    by (intro re_search_none) simp
  ultimately show "extract_playlist_id raw =
      Inl (ValueError (ustr ''Could not extract playlist ID from URL: '' @ strip_query_fragment raw))"
    by (simp add: extract_playlist_id_def patterns_def)
next
  show "\<exists>rest. raw = strip_query_fragment raw @ rest \<and>
      (rest = [] \<or> hd rest = of_char CHR ''?'' \<or> hd rest = of_char CHR ''#'')"
    by (rule strip_query_fragment_prefix)
next
  show "of_char CHR ''?'' \<notin> set (strip_query_fragment raw)"
    using strip_query_fragment_clean by blast
next
  show "of_char CHR ''#'' \<notin> set (strip_query_fragment raw)"
    using strip_query_fragment_clean by blast
next
  fix g assume r: "extract_playlist_id raw = Inr g"
  have ex: "\<exists>p. re_search p (strip_query_fragment raw) = Some g"
    using r by (auto simp: extract_playlist_id_def patterns_def Let_def split: option.splits)
  then show "g \<noteq> []" using re_search_Some_alnum by blast
  from ex show "list_all ascii_alnum g" using re_search_Some_alnum by blast
qed

theorem extract_playlist_id_spec_witness:
  "extract_playlist_id (ustr ''https://open.spotify.com/playlist/37i9dQZF1DX0XUsuxWHRQd?si=abc#t'')
     = Inr (ustr ''37i9dQZF1DX0XUsuxWHRQd'') \<and>
   extract_playlist_id (ustr ''spotify:playlist:37i9dQZF1DX0XUsuxWHRQd'')
     = Inr (ustr ''37i9dQZF1DX0XUsuxWHRQd'') \<and>
   extract_playlist_id (ustr ''https://open.spotify.com/album/37i9?x=playlist/abc'')
     = Inl (ValueError (ustr ''Could not extract playlist ID from URL: https://open.spotify.com/album/37i9''))"
proof -
  let ?a = "ustr ''https://open.spotify.com/playlist/37i9dQZF1DX0XUsuxWHRQd?si=abc#t''"
  let ?b = "ustr ''spotify:playlist:37i9dQZF1DX0XUsuxWHRQd''"
  let ?c = "ustr ''https://open.spotify.com/album/37i9?x=playlist/abc''"
  have a1: "pattern_at path_pattern (strip_query_fragment ?a) 25 \<and>
      (\<forall>j<25. \<not> pattern_at path_pattern (strip_query_fragment ?a) j)"
    by code_simp
  have a2: "group_at path_pattern (strip_query_fragment ?a) 25 = ustr ''37i9dQZF1DX0XUsuxWHRQd''"
    by code_simp
  have b0: "re_search path_pattern (strip_query_fragment ?b) = None"
    by code_simp
  have b1: "pattern_at uri_pattern (strip_query_fragment ?b) 8 \<and>
      (\<forall>j<8. \<not> pattern_at uri_pattern (strip_query_fragment ?b) j)"
    by code_simp
  have b2: "group_at uri_pattern (strip_query_fragment ?b) 8 = ustr ''37i9dQZF1DX0XUsuxWHRQd''"
    by code_simp
  have c0: "re_search path_pattern (strip_query_fragment ?c) = None"
    by code_simp
  have c1: "re_search uri_pattern (strip_query_fragment ?c) = None"
    by code_simp
  have c2: "ustr ''Could not extract playlist ID from URL: '' @ strip_query_fragment ?c =
      ustr ''Could not extract playlist ID from URL: https://open.spotify.com/album/37i9''"
    by code_simp
  have ra: "extract_playlist_id ?a = Inr (group_at path_pattern (strip_query_fragment ?a) 25)"
    by (rule extract_playlist_id_spec[of ?a 25, THEN conjunct1, THEN mp, OF a1])
  have rb: "extract_playlist_id ?b = Inr (group_at uri_pattern (strip_query_fragment ?b) 8)"
    by (rule extract_playlist_id_spec[of ?b 8, THEN conjunct2, THEN conjunct1, THEN mp,
          OF conjI[OF re_search_None_D[OF b0] b1]])
  have rc: "extract_playlist_id ?c =
      Inl (ValueError (ustr ''Could not extract playlist ID from URL: '' @ strip_query_fragment ?c))"
    by (rule extract_playlist_id_spec[of ?c 0, THEN conjunct2, THEN conjunct2, THEN conjunct1, THEN mp,
          OF conjI[OF re_search_None_D[OF c0] re_search_None_D[OF c1]]])
  show ?thesis
    using ra rb rc unfolding a2 b2 c2 by (intro conjI)
qed

section \<open>Dropped records and the index column\<close>

lemma collect_items_acc: "collect_items its acc = acc @ collect_items its []"
proof (induction its arbitrary: acc)
  case Nil
  show ?case by simp
next
  case (Cons it its)
  show ?case
  proof (cases "track it")
    case None
    with Cons.IH[of acc] show ?thesis by simp
  next
    case (Some t)
    show ?thesis
    proof (cases "truthy_str (name t)")
      case True
      have "collect_items (it # its) acc = collect_items its (acc @ [song_of_track t])"
        using Some True by simp
      also have "\<dots> = (acc @ [song_of_track t]) @ collect_items its []" by (rule Cons.IH)
      also have "\<dots> = acc @ collect_items its [song_of_track t]"
        using Cons.IH[of "[song_of_track t]"] by simp
      also have "\<dots> = acc @ collect_items (it # its) []" using Some True by simp
      finally show ?thesis .
    next
      case False
      with Some Cons.IH[of acc] show ?thesis by simp
    qed
  qed
qed

lemma collect_items_append:
  "collect_items (xs @ ys) acc = collect_items ys (collect_items xs acc)"
  by (induction xs arbitrary: acc) simp_all

lemma dropped_iff:
  "dropped it = (case track it of None \<Rightarrow> True | Some t \<Rightarrow> \<not> truthy_str (name t))"
  by (cases "track it") (auto simp: dropped_def truthy_str_def split: option.splits)

lemma collect_items_Cons:
  "collect_items (it # its) [] =
     (if dropped it then collect_items its []
      else song_of_track (kept_track it) # collect_items its [])"
proof (cases "track it")
  case None
  then show ?thesis by (simp add: dropped_iff)
next
  case (Some t)
  show ?thesis
  proof (cases "truthy_str (name t)")
    case True
    have "collect_items (it # its) [] = collect_items its [song_of_track t]"
      using Some True by simp
    also have "\<dots> = [song_of_track t] @ collect_items its []" by (rule collect_items_acc)
    finally show ?thesis using Some True by (simp add: dropped_iff kept_track_def)
  next
    case False
    with Some show ?thesis by (simp add: dropped_iff)
  qed
qed

lemma collect_items_filter:
  "collect_items its [] = map (\<lambda>it. song_of_track (kept_track it)) (filter (\<lambda>it. \<not> dropped it) its)"
proof (induction its)
  case Nil
  show ?case by simp
next
  case (Cons it its)
  show ?case unfolding collect_items_Cons using Cons.IH by simp
qed

lemma length_filter_not: "length (filter (\<lambda>x. \<not> P x) xs) = length xs - length (filter P xs)"
proof -
  have "length xs = length (filter P xs) + length (filter (\<lambda>x. \<not> P x) xs)"
    by (rule sum_length_filter_compl[symmetric])
  then show ?thesis by simp
qed

lemma map_fst_py_enumerate: "map fst (py_enumerate i xs) = [i .. i + int (length xs) - 1]"
proof (induction xs arbitrary: i)
  case Nil
  show ?case by simp
next
  case (Cons x xs)
  have "map fst (py_enumerate i (x # xs)) = i # map fst (py_enumerate (i + 1) xs)" by simp
  also have "\<dots> = i # [i + 1 .. i + 1 + int (length xs) - 1]" by (simp only: Cons.IH)
  also have "\<dots> = [i .. i + int (length (x # xs)) - 1]"
    by (simp add: upto_rec1[of i "i + int (length xs)"] add.commute add.left_commute)
  finally show ?case .
qed

lemma length_py_enumerate: "length (py_enumerate i xs) = length xs"
  by (induction xs arbitrary: i) simp_all

lemma nth_py_enumerate: "k < length xs \<Longrightarrow> py_enumerate i xs ! k = (i + int k, xs ! k)"
proof (induction xs arbitrary: i k)
  case Nil
  then show ?case by simp
next
  case (Cons x xs)
  show ?case
  proof (cases k)
    case 0
    then show ?thesis by simp
  next
    case (Suc j)
    with Cons.prems have "j < length xs" by simp
    then have "py_enumerate (i + 1) xs ! j = (i + 1 + int j, xs ! j)" by (rule Cons.IH)
    with Suc show ?thesis by simp
  qed
qed

lemma index_column:
  "map hd (tl (sheet_rows tracks)) = map IntCell [1 .. int (length tracks)]"
proof -
  have "map hd (tl (sheet_rows tracks)) = map (\<lambda>p. IntCell (fst p)) (py_enumerate 1 tracks)"
    by (simp add: sheet_rows_def split_beta)
  also have "\<dots> = map IntCell (map fst (py_enumerate 1 tracks))" by simp
  also have "\<dots> = map IntCell [1 .. int (length tracks)]"
    by (simp add: map_fst_py_enumerate)
  finally show ?thesis .
qed

text \<open>
  Claim C2. In the playlist variant, for every list of raw items: exactly the items
  whose track is null or whose title is null or empty are dropped; the rows collected are
  those of the remaining items, in the order of retrieval, so their number is the raw
  count minus the number of dropped items. The worksheet rows are the header followed by
  one row per collected track, and their index column is \<open>1, ..., N\<close>, so a dropped
  item consumes no index.
\<close>

theorem dropped_records_and_indices:
  "(dropped it \<longrightarrow>
      collect_items (pre @ it # post) acc = collect_items (pre @ post) acc) \<and>
   collect_items its [] =
     map (\<lambda>it. song_of_track (kept_track it)) (filter (\<lambda>it. \<not> dropped it) its) \<and>
   length (collect_items its []) = length its - length (filter dropped its) \<and>
   length (sheet_rows tracks) = length tracks + 1 \<and>
   hd (sheet_rows tracks) = header \<and>
   (\<forall>k<length tracks.
      sheet_rows tracks ! (k + 1) =
        [IntCell (int k + 1), StrCell (song (tracks ! k)), StrCell (spotify_url (tracks ! k))]) \<and>
   map hd (tl (sheet_rows tracks)) = map IntCell [1 .. int (length tracks)] \<and>
   map hd (tl (sheet_rows (collect_items its []))) =
     map IntCell [1 .. int (length its - length (filter dropped its))]"
proof (intro conjI)
  show "dropped it \<longrightarrow>
      collect_items (pre @ it # post) acc = collect_items (pre @ post) acc"
  proof
    assume "dropped it"
    then have "collect_items [it] a = a" for a
      by (cases "track it") (auto simp: dropped_iff)
    then have "collect_items (it # post) a = collect_items post a" for a
      using collect_items_append[of "[it]" post a] by simp
    then show "collect_items (pre @ it # post) acc = collect_items (pre @ post) acc"
      by (simp add: collect_items_append)
  qed
  show "collect_items its [] =
     map (\<lambda>it. song_of_track (kept_track it)) (filter (\<lambda>it. \<not> dropped it) its)"
    by (rule collect_items_filter)
  show len: "length (collect_items its []) = length its - length (filter dropped its)"
    by (simp add: collect_items_filter length_filter_not)
  show "length (sheet_rows tracks) = length tracks + 1"
    by (simp add: sheet_rows_def length_py_enumerate)
  show "hd (sheet_rows tracks) = header"
    by (simp add: sheet_rows_def)
  show "\<forall>k<length tracks.
      sheet_rows tracks ! (k + 1) =
        [IntCell (int k + 1), StrCell (song (tracks ! k)), StrCell (spotify_url (tracks ! k))]"
    by (simp add: sheet_rows_def length_py_enumerate nth_py_enumerate add.commute)
  show "map hd (tl (sheet_rows tracks)) = map IntCell [1 .. int (length tracks)]"
    by (rule index_column)
  show "map hd (tl (sheet_rows (collect_items its []))) =
     map IntCell [1 .. int (length its - length (filter dropped its))]"
    unfolding index_column len ..
qed

theorem dropped_records_and_indices_witness:
  "collect_items [item_a, item_null, item_b] [] = collect_items [item_a, item_b] [] \<and>
   length (collect_items items0 []) = 2 \<and>
   map hd (tl (sheet_rows (collect_items items0 []))) = [IntCell 1, IntCell 2] \<and>
   sheet_rows [song0] ! 1 =
     [IntCell 1, StrCell (ustr ''Song - A, B''), StrCell (ustr ''https://open.spotify.com/track/1'')]"
proof -
  note t = dropped_records_and_indices[of item_null "[item_a]" "[item_b]" "[]" items0 "[song0]"]
  note t1 = t[THEN conjunct1]
  note t3 = t[THEN conjunct2, THEN conjunct2, THEN conjunct1]
  note t6 = t[THEN conjunct2, THEN conjunct2, THEN conjunct2, THEN conjunct2, THEN conjunct2,
      THEN conjunct1]
  note t8 = t[THEN conjunct2, THEN conjunct2, THEN conjunct2, THEN conjunct2, THEN conjunct2,
      THEN conjunct2, THEN conjunct2]
  have d: "dropped item_null" by (simp add: dropped_def item_null_def)
  have n: "length items0 - length (filter dropped items0) = 2"
    by (simp add: items0_def dropped_def item_a_def item_b_def item_null_def item_untitled_def
        track_a_def track_b_def ustr_def)
  have "collect_items ([item_a] @ item_null # [item_b]) [] = collect_items ([item_a] @ [item_b]) []"
    by (rule t1[THEN mp, OF d])
  then have 1: "collect_items [item_a, item_null, item_b] [] = collect_items [item_a, item_b] []"
    by (simp only: append.simps)
  have 2: "length (collect_items items0 []) = 2" using t3 unfolding n .
  have 3: "map hd (tl (sheet_rows (collect_items items0 []))) = [IntCell 1, IntCell 2]"
    using t8 unfolding n by (simp add: upto_rec1)
  have "0 < length [song0]" by simp
  with t6 have "sheet_rows [song0] ! (0 + 1) =
        [IntCell (int 0 + 1), StrCell (song ([song0] ! 0)), StrCell (spotify_url ([song0] ! 0))]"
    by blast
  then have 4: "sheet_rows [song0] ! 1 =
     [IntCell 1, StrCell (ustr ''Song - A, B''), StrCell (ustr ''https://open.spotify.com/track/1'')]"
    by (simp add: song0_def)
  show ?thesis using 1 2 3 4 by blast
qed

section \<open>Paginated retrieval\<close>

lemma fetch_pages_last:
  "\<not> truthy_str (next_url p) \<Longrightarrow>
   fetch_pages get (Some p) acc reqs = Some (collect_items (items p) acc, reqs)"
  by (subst fetch_pages.simps) (simp add: truthy_str_def split: option.splits)

lemma fetch_pages_step:
  "next_url p = Some u \<Longrightarrow> u \<noteq> [] \<Longrightarrow>
   fetch_pages get (Some p) acc reqs =
     fetch_pages get (get u) (collect_items (items p) acc) (reqs @ [u])"
  by (subst fetch_pages.simps) simp

lemma fetch_pages_None: "fetch_pages get None acc reqs = Some (acc, reqs)"
  by (subst fetch_pages.simps) simp

lemma fetch_pages_chain:
  "serves get p qs \<Longrightarrow>
   fetch_pages get (Some p) acc reqs =
     Some (collect_items (concat (map items (p # qs))) acc, reqs @ next_urls (p # qs))"
proof (induction qs arbitrary: p acc reqs)
  case Nil
  then have n: "\<not> truthy_str (next_url p)" by simp
  then have "next_urls [p] = []" by (auto simp: truthy_str_def split: option.splits)
  with n show ?case by (simp add: fetch_pages_last)
next
  case (Cons q qs)
  from Cons.prems obtain u where
    u: "next_url p = Some u" "u \<noteq> []" "get u = Some q" and s: "serves get q qs"
    by (auto split: option.splits)
  have "fetch_pages get (Some p) acc reqs =
      fetch_pages get (Some q) (collect_items (items p) acc) (reqs @ [u])"
    using u by (simp add: fetch_pages_step)
  also have "\<dots> = Some (collect_items (concat (map items (q # qs))) (collect_items (items p) acc),
      (reqs @ [u]) @ next_urls (q # qs))"
    using s by (rule Cons.IH)
  also have "\<dots> = Some (collect_items (concat (map items (p # q # qs))) acc,
      reqs @ next_urls (p # q # qs))"
    using u by (simp add: collect_items_append)
  finally show ?case .
qed

lemma serves_next_urls:
  "serves get p qs \<Longrightarrow>
   length (next_urls (p # qs)) = length qs \<and>
   (\<forall>k<length qs. next_url ((p # qs) ! k) = Some (next_urls (p # qs) ! k) \<and>
      next_urls (p # qs) ! k \<noteq> [] \<and> get (next_urls (p # qs) ! k) = Some (qs ! k)) \<and>
   \<not> truthy_str (next_url (last (p # qs)))"
proof (induction qs arbitrary: p)
  case Nil
  then show ?case by (auto simp: truthy_str_def split: option.splits)
next
  case (Cons q qs)
  from Cons.prems obtain u where
    u: "next_url p = Some u" "u \<noteq> []" "get u = Some q" and s: "serves get q qs"
    by (auto split: option.splits)
  note ih = Cons.IH[OF s]
  have nu: "next_urls (p # q # qs) = u # next_urls (q # qs)" using u by simp
  have len: "length (next_urls (p # q # qs)) = length (q # qs)" using ih nu by simp
  have each: "\<forall>k<length (q # qs). next_url ((p # q # qs) ! k) = Some (next_urls (p # q # qs) ! k) \<and>
      next_urls (p # q # qs) ! k \<noteq> [] \<and> get (next_urls (p # q # qs) ! k) = Some ((q # qs) ! k)"
  proof (intro allI impI)
    fix k assume k: "k < length (q # qs)"
    show "next_url ((p # q # qs) ! k) = Some (next_urls (p # q # qs) ! k) \<and>
      next_urls (p # q # qs) ! k \<noteq> [] \<and> get (next_urls (p # q # qs) ! k) = Some ((q # qs) ! k)"
    proof (cases k)
      case 0
      with u nu show ?thesis by simp
    next
      case (Suc j)
      with k have "j < length qs" by simp
      with ih have "next_url ((q # qs) ! j) = Some (next_urls (q # qs) ! j) \<and>
        next_urls (q # qs) ! j \<noteq> [] \<and> get (next_urls (q # qs) ! j) = Some (qs ! j)"
        by blast
      with Suc nu show ?thesis by simp
    qed
  qed
  have "\<not> truthy_str (next_url (last (p # q # qs)))" using ih by simp
  with len each show ?case by blast
qed

text \<open>
  Claim C3. For every finite sequence of pages \<open>p, qs\<close> that the API serves (each page
  but the last has its next-page indicator set, naming the following page; the last has
  it unset), the retrieval returns, and its result is the rows of the concatenation of
  all pages' items, in page order and in each page's own order. It requests exactly the
  next-page URLs of the pages whose indicator is set, one per page and in page order,
  each request answered by the following page, and none after the last page. When no
  item is dropped, the result has one row per item of the concatenation. For two pages,
  the first with \<open>next\<close> set and the second with \<open>next\<close> unset, the result is page
  one's items followed by page two's, after a single request.
\<close>

theorem paginated_retrieval:
  "(serves get p qs \<longrightarrow>
      fetch_pages get (Some p) [] [] =
        Some (collect_items (concat (map items (p # qs))) [], next_urls (p # qs)) \<and>
      length (next_urls (p # qs)) = length qs \<and>
      (\<forall>k<length qs. next_url ((p # qs) ! k) = Some (next_urls (p # qs) ! k) \<and>
         next_urls (p # qs) ! k \<noteq> [] \<and> get (next_urls (p # qs) ! k) = Some (qs ! k)) \<and>
      \<not> truthy_str (next_url (last (p # qs)))) \<and>
   (serves get p qs \<and> (\<forall>it \<in> set (concat (map items (p # qs))). \<not> dropped it) \<longrightarrow>
      fetch_pages get (Some p) [] [] =
        Some (map (\<lambda>it. song_of_track (kept_track it)) (concat (map items (p # qs))),
              next_urls (p # qs))) \<and>
   (next_url p = Some u \<and> u \<noteq> [] \<and> get u = Some q \<and> \<not> truthy_str (next_url q) \<longrightarrow>
      fetch_pages get (Some p) [] [] = Some (collect_items (items p @ items q) [], [u])) \<and>
   (\<not> truthy_str (next_url p) \<longrightarrow>
      fetch_pages get (Some p) [] [] = Some (collect_items (items p) [], [])) \<and>
   (extract_playlist_id ref = Inr playlist_id \<and> playlist_tracks sp playlist_id = Some p \<and>
    serves (get_page sp) p qs \<longrightarrow>
      get_playlist_data sp ref =
        Some (Inr (playlist_name sp playlist_id,
                   collect_items (concat (map items (p # qs))) [])))"
proof (intro conjI impI)
  assume s: "serves get p qs"
  show "fetch_pages get (Some p) [] [] =
        Some (collect_items (concat (map items (p # qs))) [], next_urls (p # qs))"
    using fetch_pages_chain[OF s, of "[]" "[]"] by simp
  show "length (next_urls (p # qs)) = length qs"
    using serves_next_urls[OF s] by blast
  show "\<forall>k<length qs. next_url ((p # qs) ! k) = Some (next_urls (p # qs) ! k) \<and>
         next_urls (p # qs) ! k \<noteq> [] \<and> get (next_urls (p # qs) ! k) = Some (qs ! k)"
    using serves_next_urls[OF s] by blast
  show "\<not> truthy_str (next_url (last (p # qs)))"
    using serves_next_urls[OF s] by blast
next
  assume a: "serves get p qs \<and> (\<forall>it \<in> set (concat (map items (p # qs))). \<not> dropped it)"
  then have f: "filter (\<lambda>it. \<not> dropped it) (concat (map items (p # qs))) = concat (map items (p # qs))"
    by (intro filter_True) blast
  have "fetch_pages get (Some p) [] [] =
        Some (collect_items (concat (map items (p # qs))) [], next_urls (p # qs))"
    using a fetch_pages_chain[of get p qs "[]" "[]"] by simp
  then show "fetch_pages get (Some p) [] [] =
        Some (map (\<lambda>it. song_of_track (kept_track it)) (concat (map items (p # qs))),
              next_urls (p # qs))"
    unfolding collect_items_filter f .
next
  assume a: "next_url p = Some u \<and> u \<noteq> [] \<and> get u = Some q \<and> \<not> truthy_str (next_url q)"
  then have s: "serves get p [q]" by simp
  have "next_urls [p, q] = [u]" using a by (auto simp: truthy_str_def split: option.splits)
  then show "fetch_pages get (Some p) [] [] = Some (collect_items (items p @ items q) [], [u])"
    using fetch_pages_chain[OF s, of "[]" "[]"] by simp
next
  assume "\<not> truthy_str (next_url p)"
  then show "fetch_pages get (Some p) [] [] = Some (collect_items (items p) [], [])"
    by (rule fetch_pages_last)
next
  assume a: "extract_playlist_id ref = Inr playlist_id \<and> playlist_tracks sp playlist_id = Some p \<and>
    serves (get_page sp) p qs"
  then have "fetch_pages (get_page sp) (Some p) [] [] =
        Some (collect_items (concat (map items (p # qs))) [], next_urls (p # qs))"
    using fetch_pages_chain[of "get_page sp" p qs "[]" "[]"] by simp
  with a show "get_playlist_data sp ref =
        Some (Inr (playlist_name sp playlist_id,
                   collect_items (concat (map items (p # qs))) []))"
    by (simp add: get_playlist_data_def)
qed

theorem paginated_retrieval_witness:
  "fetch_pages server0 (Some page1) [] [] =
     Some ([song_of_track track_a, song_of_track track_b], [ustr ''https://api.example/p2''])"
proof -
  have h: "next_url page1 = Some (ustr ''https://api.example/p2'') \<and> ustr ''https://api.example/p2'' \<noteq> [] \<and>
      server0 (ustr ''https://api.example/p2'') = Some page2 \<and> \<not> truthy_str (next_url page2)"
    by (simp add: page1_def page2_def server0_def truthy_str_def ustr_def)
  have c: "collect_items (items page1 @ items page2) [] = [song_of_track track_a, song_of_track track_b]"
    by (simp add: page1_def page2_def item_a_def item_b_def item_null_def track_a_def track_b_def
        truthy_str_def ustr_def)
  have "fetch_pages server0 (Some page1) [] [] =
      Some (collect_items (items page1 @ items page2) [], [ustr ''https://api.example/p2''])"
    by (rule paginated_retrieval[where get = server0 and p = page1 and q = page2
          and u = "ustr ''https://api.example/p2''",
          THEN conjunct2, THEN conjunct2, THEN conjunct1, THEN mp, OF h])
  then show ?thesis unfolding c .
qed

section \<open>Liked tracks: retrieval\<close>









section \<open>Writing a worksheet\<close>

lemma fold_max_ge_init: "(a::nat) \<le> fold max xs a"
proof (induction xs arbitrary: a)
  case Nil
  show ?case by simp
next
  case (Cons x xs)
  have "a \<le> max x a" by simp
  also have "\<dots> \<le> fold max xs (max x a)" by (rule Cons.IH)
  finally show ?case by simp
qed

lemma fold_max_ge_elem: "x \<in> set xs \<Longrightarrow> (x::nat) \<le> fold max xs a"
proof (induction xs arbitrary: a)
  case Nil
  then show ?case by simp
next
  case (Cons y ys)
  show ?case
  proof (cases "x = y")
    case True
    have "x \<le> max y a" using True by simp
    also have "\<dots> \<le> fold max ys (max y a)" by (rule fold_max_ge_init)
    finally show ?thesis by simp
  next
    case False
    with Cons.prems have "x \<in> set ys" by simp
    then have "x \<le> fold max ys (max y a)" by (rule Cons.IH)
    then show ?thesis by simp
  qed
qed

lemma fresh_id_new: "w \<in> set (sheets ss) \<Longrightarrow> ws_id w \<noteq> fresh_id ss"
proof -
  assume "w \<in> set (sheets ss)"
  then have "ws_id w \<in> set (map ws_id (sheets ss))" by simp
  then have "ws_id w \<le> fold max (map ws_id (sheets ss)) 0" by (rule fold_max_ge_elem)
  then show ?thesis by (simp add: fresh_id_def)
qed

lemma map_update_others:
  "(\<forall>w \<in> set ws. ws_id w \<noteq> k) \<Longrightarrow>
   map (\<lambda>v. if ws_id v = k then v\<lparr>ws_cells := rows\<rparr> else v) ws = ws"
  by (induction ws) auto

lemma add_then_update:
  "update (fst (add_worksheet ss t r c)) (snd (add_worksheet ss t r c)) rows =
   ss\<lparr>sheets := sheets ss @
         [\<lparr>ws_id = fresh_id ss, ws_title = t, ws_nrows = r, ws_ncols = c, ws_cells = rows\<rparr>],
      calls := calls ss @ [AddWorksheet t r c, Update (fresh_id ss) rows]\<rparr>"
proof -
  have "\<forall>w \<in> set (sheets ss). ws_id w \<noteq> fresh_id ss" using fresh_id_new by blast
  then have "map (\<lambda>v. if ws_id v = fresh_id ss then v\<lparr>ws_cells := rows\<rparr> else v) (sheets ss) = sheets ss"
    by (rule map_update_others)
  then show ?thesis by (simp add: add_worksheet_def update_def Let_def)
qed

lemma delete_existing_found:
  "find (\<lambda>w. ws_title w = t) (sheets ss) = Some old \<Longrightarrow>
   delete_existing ss t =
     (ss\<lparr>sheets := filter (\<lambda>v. ws_id v \<noteq> ws_id old) (sheets ss),
         calls := calls ss @ [GetWorksheet t, DelWorksheet (ws_id old)]\<rparr>,
      [ustr ''Deleted existing worksheet '' @ [39] @ t @ [39] @ ustr ''.''])"
  by (simp add: delete_existing_def get_worksheet_def del_worksheet_def)

lemma delete_existing_absent:
  "find (\<lambda>w. ws_title w = t) (sheets ss) = None \<Longrightarrow>
   delete_existing ss t = (ss\<lparr>calls := calls ss @ [GetWorksheet t]\<rparr>, [])"
  by (simp add: delete_existing_def get_worksheet_def)

lemma create_sheets_worksheet_eq:
  "create_sheets_worksheet U pl tracks ss =
     (let n = clean_sheet_name U pl;
          d = delete_existing ss n;
          ss3 = update (fst (add_worksheet (fst d) n (length tracks + 1) 3))
                  (snd (add_worksheet (fst d) n (length tracks + 1) 3)) (sheet_rows tracks)
      in (ss3,
          snd d @
          [ustr ''Created worksheet '' @ [39] @ n @ [39] @ ustr '' with '' @
             dec (length tracks) @ ustr '' tracks.'',
           ustr ''Spreadsheet URL: '' @ url ss3]))"
  by (simp add: create_sheets_worksheet_def Let_def split_beta)

lemma xml_to_sheets_eq:
  "truthy_str (env (ustr ''REKORDBOX_XML_PATH'')) \<Longrightarrow>
   truthy_str (env (ustr ''GDRIVE_CREDENTIALS_PATH'')) \<Longrightarrow>
   truthy_str (env (ustr ''SPREADSHEET_ID'')) \<Longrightarrow>
   xml_to_sheets env today elems ss =
     (let rows = xml_rows elems;
          d = delete_existing ss today;
          ss3 = update (fst (add_worksheet (fst d) today (length rows + 1) (length FIELDS)))
                  (snd (add_worksheet (fst d) today (length rows + 1) (length FIELDS)))
                  (map (map StrCell) (payload rows))
      in \<lparr>printed =
            [ustr ''Loading XML from '' @ py_str_opt (env (ustr ''REKORDBOX_XML_PATH'')) @ [8230],
             ustr ''Found '' @ dec (length rows) @ ustr '' tracks.''] @
            snd d @
            [ustr ''Wrote '' @ dec (length rows) @ ustr '' rows to '' @ [39] @ today @
               [39] @ ustr ''.'',
             ustr ''Done! Your sheet is here:'',
             url ss3],
          ending = Returned, book = ss3\<rparr>)"
  by (simp add: xml_to_sheets_def Let_def split_beta)

lemma length_FIELDS: "length FIELDS = 11"
  by (simp add: FIELDS_def)

lemma length_xml_row: "length (xml_row attrib) = 11"
  by (simp add: xml_row_def length_FIELDS)

lemma payload_rectangular: "r \<in> set (payload (xml_rows elems)) \<Longrightarrow> length r = length FIELDS"
  by (auto simp: payload_def xml_rows_def length_xml_row length_FIELDS)

section \<open>Empty row sequences\<close>

text \<open>
  Claim C5, as amended. In the playlist script, when retrieval yields no row, the run
  prints \<open>No tracks found in the playlist.\<close> and returns: the spreadsheet is left as it
  was, with no call made to it, so no worksheet is created. The file script has no such
  check: with no track element it still creates the worksheet, one row by
  \<open>len(FIELDS)\<close> columns, holding the header row alone.
\<close>

theorem empty_rows:
  "(first_unset env required_vars = None \<and> strip U input_line \<noteq> [] \<and>
    get_playlist_data sp (strip U input_line) = Some (Inr (nm, []))
    \<longrightarrow> main_playlist U env input_line sp ss =
          Some \<lparr>printed = [ustr ''Fetching playlist data from Spotify...'',
                            ustr ''No tracks found in the playlist.''],
                ending = Returned, book = ss\<rparr>) \<and>
   (truthy_str (env (ustr ''REKORDBOX_XML_PATH'')) \<and>
    truthy_str (env (ustr ''GDRIVE_CREDENTIALS_PATH'')) \<and>
    truthy_str (env (ustr ''SPREADSHEET_ID''))
    \<longrightarrow> last (sheets (book (xml_to_sheets env today [] ss))) =
          \<lparr>ws_id = fresh_id (fst (delete_existing ss today)), ws_title = today,
           ws_nrows = 1, ws_ncols = 11, ws_cells = [map StrCell FIELDS]\<rparr> \<and>
        last (butlast (calls (book (xml_to_sheets env today [] ss)))) = AddWorksheet today 1 11 \<and>
        ending (xml_to_sheets env today [] ss) = Returned)"
proof (intro conjI impI)
  assume "first_unset env required_vars = None \<and> strip U input_line \<noteq> [] \<and>
    get_playlist_data sp (strip U input_line) = Some (Inr (nm, []))"
  then show "main_playlist U env input_line sp ss =
          Some \<lparr>printed = [ustr ''Fetching playlist data from Spotify...'',
                            ustr ''No tracks found in the playlist.''],
                ending = Returned, book = ss\<rparr>"
    by (simp add: main_playlist_def Let_def)
next
  assume e: "truthy_str (env (ustr ''REKORDBOX_XML_PATH'')) \<and>
    truthy_str (env (ustr ''GDRIVE_CREDENTIALS_PATH'')) \<and>
    truthy_str (env (ustr ''SPREADSHEET_ID''))"
  then show "last (sheets (book (xml_to_sheets env today [] ss))) =
          \<lparr>ws_id = fresh_id (fst (delete_existing ss today)), ws_title = today,
           ws_nrows = 1, ws_ncols = 11, ws_cells = [map StrCell FIELDS]\<rparr>"
    by (simp add: xml_to_sheets_eq Let_def add_then_update xml_rows_def payload_def length_FIELDS)
  from e show "last (butlast (calls (book (xml_to_sheets env today [] ss)))) = AddWorksheet today 1 11"
    by (simp add: xml_to_sheets_eq Let_def add_then_update xml_rows_def payload_def length_FIELDS
        butlast_append)
  from e show "ending (xml_to_sheets env today [] ss) = Returned"
    by (simp add: xml_to_sheets_eq Let_def)
qed

theorem empty_rows_witness:
  "main_playlist ascii_only full_env (ustr '' spotify:playlist:abc '') sp_empty book0 =
     Some \<lparr>printed = [ustr ''Fetching playlist data from Spotify...'',
                       ustr ''No tracks found in the playlist.''],
           ending = Returned, book = book0\<rparr>"
proof -
  have s: "strip ascii_only (ustr '' spotify:playlist:abc '') = ustr ''spotify:playlist:abc''"
    by (simp add: strip_def is_space_def ascii_space_def ustr_def)
  have v: "first_unset full_env required_vars = None"
    by (simp add: full_env_def required_vars_def truthy_str_def ustr_def)
  have e: "extract_playlist_id (ustr ''spotify:playlist:abc'') = Inr (ustr ''abc'')"
    by code_simp
  have g: "get_playlist_data sp_empty (ustr ''spotify:playlist:abc'') = Some (Inr (ustr ''Empty'', []))"
    by (simp add: get_playlist_data_def e sp_empty_def fetch_pages_last truthy_str_def item_null_def)
  have h: "first_unset full_env required_vars = None \<and>
      strip ascii_only (ustr '' spotify:playlist:abc '') \<noteq> [] \<and>
      get_playlist_data sp_empty (strip ascii_only (ustr '' spotify:playlist:abc '')) =
        Some (Inr (ustr ''Empty'', []))"
    unfolding s using v g by (simp add: ustr_def)
  show ?thesis
    by (rule empty_rows[where U = ascii_only and sp = sp_empty and nm = "ustr ''Empty''",
          THEN conjunct1, THEN mp, OF h])
qed

text \<open>
  The claim as stated, for all variants, fails on the file script: run on a document
  with no track element and an empty spreadsheet, it leaves a worksheet behind.
\<close>

theorem empty_rows_counterexample:
  "xml_rows [] = [] \<and> sheets empty_book = [] \<and>
   map ws_title (sheets (book (xml_to_sheets full_env (ustr ''2025-04-26'') [] empty_book))) =
     [ustr ''2025-04-26'']"
proof -
  have e: "truthy_str (full_env (ustr ''REKORDBOX_XML_PATH''))"
      "truthy_str (full_env (ustr ''GDRIVE_CREDENTIALS_PATH''))"
      "truthy_str (full_env (ustr ''SPREADSHEET_ID''))"
    by (simp_all add: full_env_def truthy_str_def ustr_def)
  have a: "find (\<lambda>w. ws_title w = ustr ''2025-04-26'') (sheets empty_book) = None"
    by (simp add: empty_book_def)
  have "map ws_title (sheets (book (xml_to_sheets full_env (ustr ''2025-04-26'') [] empty_book))) =
     [ustr ''2025-04-26'']"
    by (simp add: xml_to_sheets_eq[OF e] Let_def delete_existing_absent[OF a] add_then_update)
      (simp add: empty_book_def)
  then show ?thesis by (simp add: xml_rows_def empty_book_def)
qed

section \<open>Worksheet names\<close>

lemma strip_subset: "set (strip U s) \<subseteq> set s"
proof -
  have "set (strip U s) = set (dropWhile (is_space U) (rev (dropWhile (is_space U) s)))"
    by (simp add: strip_def)
  also have "\<dots> \<subseteq> set (rev (dropWhile (is_space U) s))" by (rule set_dropWhileD[THEN subsetI])
  also have "\<dots> \<subseteq> set s" using set_dropWhileD by fastforce
  finally show ?thesis .
qed

lemma strip_id:
  assumes "s \<noteq> []" "\<not> is_space U (hd s)" "\<not> is_space U (last s)"
  shows "strip U s = s"
proof -
  have "dropWhile (is_space U) s = s" using assms by (cases s) auto
  moreover have "dropWhile (is_space U) (rev s) = rev s"
    using assms by (cases "rev s") (auto simp: last_rev[symmetric] hd_rev)
  ultimately show ?thesis by (simp add: strip_def)
qed

lemma strip_ends:
  assumes ne: "strip U s \<noteq> []"
  shows "\<not> is_space U (hd (strip U s)) \<and> \<not> is_space U (last (strip U s))"
proof -
  let ?e = "dropWhile (is_space U) s"
  let ?d = "dropWhile (is_space U) (rev ?e)"
  have d: "?d \<noteq> []" using ne by (simp add: strip_def)
  then have l: "\<not> is_space U (hd ?d)" by (rule hd_dropWhile)
  have "last (strip U s) = hd ?d" using d by (simp add: strip_def last_rev)
  with l have 1: "\<not> is_space U (last (strip U s))" by simp
  have e: "?e \<noteq> []"
  proof
    assume h: "?e = []"
    have "?d = []" unfolding h by simp
    with d show False by simp
  qed
  then have he: "\<not> is_space U (hd ?e)" by (rule hd_dropWhile)
  have "\<exists>ys. rev ?e = ys @ ?d" by (metis takeWhile_dropWhile_id)
  then obtain ys where "rev ?e = ys @ ?d" by blast
  then have "?e = rev ?d @ rev ys" by (metis rev_append rev_rev_ident)
  then have "hd ?e = hd (rev ?d)" using d by (metis hd_append2 rev_is_Nil_conv)
  then have "hd (strip U s) = hd ?e" by (simp add: strip_def)
  with he 1 show ?thesis by simp
qed

lemma strip_decompose:
  "\<exists>a b. s = a @ strip U s @ b \<and> list_all (is_space U) a \<and> list_all (is_space U) b"
proof -
  let ?e = "dropWhile (is_space U) s"
  let ?a = "takeWhile (is_space U) s"
  let ?b = "rev (takeWhile (is_space U) (rev ?e))"
  have "rev (dropWhile (is_space U) (rev ?e)) @ ?b =
      rev (takeWhile (is_space U) (rev ?e) @ dropWhile (is_space U) (rev ?e))"
    by (simp only: rev_append)
  also have "\<dots> = rev (rev ?e)" by (simp only: takeWhile_dropWhile_id)
  also have "\<dots> = ?e" by (simp only: rev_rev_ident)
  finally have e: "?e = strip U s @ ?b" by (simp only: strip_def)
  have "s = ?a @ ?e" by simp
  with e have s: "s = ?a @ strip U s @ ?b" by simp
  have a: "list_all (is_space U) ?a" by (auto simp: list_all_iff dest: set_takeWhileD)
  have b: "list_all (is_space U) ?b" by (auto simp: list_all_iff dest: set_takeWhileD)
  show ?thesis by (rule exI[of _ ?a], rule exI[of _ ?b], intro conjI, rule s, rule a, rule b)
qed

lemma clean_sheet_name_take:
  "clean_sheet_name U n = take 100 (strip U (remove_invalid U n))"
  by (simp add: clean_sheet_name_def Let_def)

text \<open>
  Claim C6, as amended. \<open>clean_sheet_name\<close> removes every character that is not a word
  character (alphanumeric or underscore), whitespace or a hyphen, then trims leading and
  trailing whitespace, then keeps at most the first 100 characters. The name
  \<open>My/Playlist: Summer '24!\<close> becomes \<open>MyPlaylist Summer 24\<close>. The result has exactly 100
  characters whenever the name still has at least 100 after removal and trimming; so a
  150-character name made only of allowed characters, with no whitespace at either end,
  is cut to its first 100 characters.
\<close>

theorem clean_sheet_name_spec:
  "clean_sheet_name U n = take 100 (strip U (remove_invalid U n)) \<and>
   remove_invalid U n =
     filter (\<lambda>c. is_word U c \<or> is_space U c \<or> c = of_char CHR ''-'') n \<and>
   (\<exists>a b. s = a @ strip U s @ b \<and> list_all (is_space U) a \<and> list_all (is_space U) b) \<and>
   (strip U s \<noteq> [] \<longrightarrow> \<not> is_space U (hd (strip U s)) \<and> \<not> is_space U (last (strip U s))) \<and>
   length (clean_sheet_name U n) \<le> 100 \<and>
   (\<forall>c \<in> set (clean_sheet_name U n). is_word U c \<or> is_space U c \<or> c = of_char CHR ''-'') \<and>
   clean_sheet_name U (ustr ''My/Playlist: Summer '24!'') = ustr ''MyPlaylist Summer 24'' \<and>
   (100 \<le> length (strip U (remove_invalid U n)) \<longrightarrow> length (clean_sheet_name U n) = 100) \<and>
   (length n = 150 \<and>
    (\<forall>c \<in> set n. is_word U c \<or> is_space U c \<or> c = of_char CHR ''-'') \<and>
    \<not> is_space U (hd n) \<and> \<not> is_space U (last n)
    \<longrightarrow> clean_sheet_name U n = take 100 n \<and> length (clean_sheet_name U n) = 100)"
proof (intro conjI impI)
  show "clean_sheet_name U n = take 100 (strip U (remove_invalid U n))"
    by (rule clean_sheet_name_take)
  show "remove_invalid U n =
     filter (\<lambda>c. is_word U c \<or> is_space U c \<or> c = of_char CHR ''-'') n"
    by (simp add: remove_invalid_def)
  show "\<exists>a b. s = a @ strip U s @ b \<and> list_all (is_space U) a \<and> list_all (is_space U) b"
    by (rule strip_decompose)
  show "length (clean_sheet_name U n) \<le> 100"
    by (simp add: clean_sheet_name_take)
  show "\<forall>c \<in> set (clean_sheet_name U n). is_word U c \<or> is_space U c \<or> c = of_char CHR ''-''"
  proof
    fix c assume "c \<in> set (clean_sheet_name U n)"
    then have "c \<in> set (strip U (remove_invalid U n))"
      unfolding clean_sheet_name_take by (rule in_set_takeD)
    then have "c \<in> set (remove_invalid U n)" using strip_subset by blast
    then show "is_word U c \<or> is_space U c \<or> c = of_char CHR ''-''"
      by (simp add: remove_invalid_def)
  qed
  show "clean_sheet_name U (ustr ''My/Playlist: Summer '24!'') = ustr ''MyPlaylist Summer 24''"
    by (simp add: clean_sheet_name_def strip_def remove_invalid_def is_word_def is_space_def
        ascii_alnum_def ascii_space_def ustr_def)
next
  assume "strip U s \<noteq> []"
  then show "\<not> is_space U (hd (strip U s))" using strip_ends by blast
next
  assume "strip U s \<noteq> []"
  then show "\<not> is_space U (last (strip U s))" using strip_ends by blast
next
  assume "100 \<le> length (strip U (remove_invalid U n))"
  then show "length (clean_sheet_name U n) = 100"
    by (simp add: clean_sheet_name_take)
next
  assume a: "length n = 150 \<and>
    (\<forall>c \<in> set n. is_word U c \<or> is_space U c \<or> c = of_char CHR ''-'') \<and>
    \<not> is_space U (hd n) \<and> \<not> is_space U (last n)"
  then have ne: "n \<noteq> []" by auto
  from a have "remove_invalid U n = n" by (simp add: remove_invalid_def)
  moreover have "strip U n = n" using ne a by (intro strip_id) simp_all
  ultimately show "clean_sheet_name U n = take 100 n" by (simp add: clean_sheet_name_take)
next
  assume a: "length n = 150 \<and>
    (\<forall>c \<in> set n. is_word U c \<or> is_space U c \<or> c = of_char CHR ''-'') \<and>
    \<not> is_space U (hd n) \<and> \<not> is_space U (last n)"
  then have ne: "n \<noteq> []" by auto
  from a have "remove_invalid U n = n" by (simp add: remove_invalid_def)
  moreover have "strip U n = n" using ne a by (intro strip_id) simp_all
  ultimately show "length (clean_sheet_name U n) = 100" using a by (simp add: clean_sheet_name_take)
qed

theorem clean_sheet_name_spec_witness:
  "clean_sheet_name ascii_only (replicate 150 (of_char CHR ''a'')) = replicate 100 (of_char CHR ''a'') \<and>
   length (clean_sheet_name ascii_only (replicate 150 (of_char CHR ''a''))) = 100"
proof -
  let ?n = "replicate 150 (of_char CHR ''a'') :: ustring"
  have h: "length ?n = 150 \<and>
    (\<forall>c \<in> set ?n. is_word ascii_only c \<or> is_space ascii_only c \<or> c = of_char CHR ''-'') \<and>
    \<not> is_space ascii_only (hd ?n) \<and> \<not> is_space ascii_only (last ?n)"
    by (simp add: is_word_def is_space_def ascii_alnum_def ascii_space_def)
  have t: "take 100 ?n = replicate 100 (of_char CHR ''a'')" by simp
  have c: "clean_sheet_name ascii_only ?n = take 100 ?n \<and> length (clean_sheet_name ascii_only ?n) = 100"
    using clean_sheet_name_spec[of ascii_only ?n "[]"] h by blast
  then show ?thesis unfolding t by simp
qed

text \<open>
  The claim as stated fails: a name of 150 exclamation marks has 150 characters and is
  sanitized to the empty name, not to 100 characters.
\<close>

theorem clean_sheet_name_150_counterexample:
  "length (replicate 150 (of_char CHR ''!'' :: nat)) = 150 \<and>
   clean_sheet_name ascii_only (replicate 150 (of_char CHR ''!'')) = []"
  by (simp add: clean_sheet_name_def strip_def remove_invalid_def is_word_def is_space_def
      ascii_alnum_def ascii_space_def)

section \<open>Liked tracks: the limit argument\<close>






text \<open>
  Claim C8. In both scripts that write a worksheet (the playlist script under the
  sanitized playlist name, the file script under today's date): if a worksheet with
  exactly that title exists, the calls are lookup, delete of that worksheet, add, update,
  in this order, and the spreadsheet ends with the old worksheet gone and the new one
  last; if none exists, the lookup's \<open>WorksheetNotFound\<close> is swallowed and the run goes on
  with add and update, ending normally.
\<close>

theorem replace_on_rerun:
  "(find (\<lambda>w. ws_title w = clean_sheet_name U pl) (sheets ss) = Some old \<longrightarrow>
      calls (fst (create_sheets_worksheet U pl tracks ss)) =
        calls ss @
        [GetWorksheet (clean_sheet_name U pl), DelWorksheet (ws_id old),
         AddWorksheet (clean_sheet_name U pl) (length tracks + 1) 3,
         Update (ws_id (last (sheets (fst (create_sheets_worksheet U pl tracks ss)))))
           (sheet_rows tracks)] \<and>
      butlast (sheets (fst (create_sheets_worksheet U pl tracks ss))) =
        filter (\<lambda>v. ws_id v \<noteq> ws_id old) (sheets ss) \<and>
      ws_title (last (sheets (fst (create_sheets_worksheet U pl tracks ss)))) =
        clean_sheet_name U pl \<and>
      ws_cells (last (sheets (fst (create_sheets_worksheet U pl tracks ss)))) = sheet_rows tracks \<and>
      hd (snd (create_sheets_worksheet U pl tracks ss)) =
        ustr ''Deleted existing worksheet '' @ [39] @ clean_sheet_name U pl @ [39] @ ustr ''.'') \<and>
   (find (\<lambda>w. ws_title w = clean_sheet_name U pl) (sheets ss) = None \<longrightarrow>
      calls (fst (create_sheets_worksheet U pl tracks ss)) =
        calls ss @
        [GetWorksheet (clean_sheet_name U pl),
         AddWorksheet (clean_sheet_name U pl) (length tracks + 1) 3,
         Update (ws_id (last (sheets (fst (create_sheets_worksheet U pl tracks ss)))))
           (sheet_rows tracks)] \<and>
      butlast (sheets (fst (create_sheets_worksheet U pl tracks ss))) = sheets ss \<and>
      ws_title (last (sheets (fst (create_sheets_worksheet U pl tracks ss)))) =
        clean_sheet_name U pl \<and>
      ws_cells (last (sheets (fst (create_sheets_worksheet U pl tracks ss)))) = sheet_rows tracks \<and>
      length (snd (create_sheets_worksheet U pl tracks ss)) = 2) \<and>
   (truthy_str (env (ustr ''REKORDBOX_XML_PATH'')) \<and>
    truthy_str (env (ustr ''GDRIVE_CREDENTIALS_PATH'')) \<and>
    truthy_str (env (ustr ''SPREADSHEET_ID'')) \<and>
    find (\<lambda>w. ws_title w = today) (sheets ss) = Some old \<longrightarrow>
      calls (book (xml_to_sheets env today elems ss)) =
        calls ss @
        [GetWorksheet today, DelWorksheet (ws_id old),
         AddWorksheet today (length elems + 1) (length FIELDS),
         Update (ws_id (last (sheets (book (xml_to_sheets env today elems ss)))))
           (map (map StrCell) (payload (xml_rows elems)))] \<and>
      butlast (sheets (book (xml_to_sheets env today elems ss))) =
        filter (\<lambda>v. ws_id v \<noteq> ws_id old) (sheets ss) \<and>
      ws_title (last (sheets (book (xml_to_sheets env today elems ss)))) = today \<and>
      ending (xml_to_sheets env today elems ss) = Returned) \<and>
   (truthy_str (env (ustr ''REKORDBOX_XML_PATH'')) \<and>
    truthy_str (env (ustr ''GDRIVE_CREDENTIALS_PATH'')) \<and>
    truthy_str (env (ustr ''SPREADSHEET_ID'')) \<and>
    find (\<lambda>w. ws_title w = today) (sheets ss) = None \<longrightarrow>
      calls (book (xml_to_sheets env today elems ss)) =
        calls ss @
        [GetWorksheet today,
         AddWorksheet today (length elems + 1) (length FIELDS),
         Update (ws_id (last (sheets (book (xml_to_sheets env today elems ss)))))
           (map (map StrCell) (payload (xml_rows elems)))] \<and>
      butlast (sheets (book (xml_to_sheets env today elems ss))) = sheets ss \<and>
      ws_title (last (sheets (book (xml_to_sheets env today elems ss)))) = today \<and>
      ending (xml_to_sheets env today elems ss) = Returned)"
proof (intro conjI)
  show "find (\<lambda>w. ws_title w = clean_sheet_name U pl) (sheets ss) = Some old \<longrightarrow>
      calls (fst (create_sheets_worksheet U pl tracks ss)) =
        calls ss @
        [GetWorksheet (clean_sheet_name U pl), DelWorksheet (ws_id old),
         AddWorksheet (clean_sheet_name U pl) (length tracks + 1) 3,
         Update (ws_id (last (sheets (fst (create_sheets_worksheet U pl tracks ss)))))
           (sheet_rows tracks)] \<and>
      butlast (sheets (fst (create_sheets_worksheet U pl tracks ss))) =
        filter (\<lambda>v. ws_id v \<noteq> ws_id old) (sheets ss) \<and>
      ws_title (last (sheets (fst (create_sheets_worksheet U pl tracks ss)))) =
        clean_sheet_name U pl \<and>
      ws_cells (last (sheets (fst (create_sheets_worksheet U pl tracks ss)))) = sheet_rows tracks \<and>
      hd (snd (create_sheets_worksheet U pl tracks ss)) =
        ustr ''Deleted existing worksheet '' @ [39] @ clean_sheet_name U pl @ [39] @ ustr ''.''"
    by (simp add: create_sheets_worksheet_eq Let_def delete_existing_found add_then_update)
  show "find (\<lambda>w. ws_title w = clean_sheet_name U pl) (sheets ss) = None \<longrightarrow>
      calls (fst (create_sheets_worksheet U pl tracks ss)) =
        calls ss @
        [GetWorksheet (clean_sheet_name U pl),
         AddWorksheet (clean_sheet_name U pl) (length tracks + 1) 3,
         Update (ws_id (last (sheets (fst (create_sheets_worksheet U pl tracks ss)))))
           (sheet_rows tracks)] \<and>
      butlast (sheets (fst (create_sheets_worksheet U pl tracks ss))) = sheets ss \<and>
      ws_title (last (sheets (fst (create_sheets_worksheet U pl tracks ss)))) =
        clean_sheet_name U pl \<and>
      ws_cells (last (sheets (fst (create_sheets_worksheet U pl tracks ss)))) = sheet_rows tracks \<and>
      length (snd (create_sheets_worksheet U pl tracks ss)) = 2"
    by (simp add: create_sheets_worksheet_eq Let_def delete_existing_absent add_then_update)
  show "truthy_str (env (ustr ''REKORDBOX_XML_PATH'')) \<and>
    truthy_str (env (ustr ''GDRIVE_CREDENTIALS_PATH'')) \<and>
    truthy_str (env (ustr ''SPREADSHEET_ID'')) \<and>
    find (\<lambda>w. ws_title w = today) (sheets ss) = Some old \<longrightarrow>
      calls (book (xml_to_sheets env today elems ss)) =
        calls ss @
        [GetWorksheet today, DelWorksheet (ws_id old),
         AddWorksheet today (length elems + 1) (length FIELDS),
         Update (ws_id (last (sheets (book (xml_to_sheets env today elems ss)))))
           (map (map StrCell) (payload (xml_rows elems)))] \<and>
      butlast (sheets (book (xml_to_sheets env today elems ss))) =
        filter (\<lambda>v. ws_id v \<noteq> ws_id old) (sheets ss) \<and>
      ws_title (last (sheets (book (xml_to_sheets env today elems ss)))) = today \<and>
      ending (xml_to_sheets env today elems ss) = Returned"
    by (simp add: xml_to_sheets_eq Let_def delete_existing_found add_then_update xml_rows_def)
  show "truthy_str (env (ustr ''REKORDBOX_XML_PATH'')) \<and>
    truthy_str (env (ustr ''GDRIVE_CREDENTIALS_PATH'')) \<and>
    truthy_str (env (ustr ''SPREADSHEET_ID'')) \<and>
    find (\<lambda>w. ws_title w = today) (sheets ss) = None \<longrightarrow>
      calls (book (xml_to_sheets env today elems ss)) =
        calls ss @
        [GetWorksheet today,
         AddWorksheet today (length elems + 1) (length FIELDS),
         Update (ws_id (last (sheets (book (xml_to_sheets env today elems ss)))))
           (map (map StrCell) (payload (xml_rows elems)))] \<and>
      butlast (sheets (book (xml_to_sheets env today elems ss))) = sheets ss \<and>
      ws_title (last (sheets (book (xml_to_sheets env today elems ss)))) = today \<and>
      ending (xml_to_sheets env today elems ss) = Returned"
    by (simp add: xml_to_sheets_eq Let_def delete_existing_absent add_then_update xml_rows_def)
qed

theorem replace_on_rerun_witness:
  "calls (fst (create_sheets_worksheet ascii_only (ustr ''Mix!'') [song0] book0)) =
     [GetWorksheet (ustr ''Mix''), DelWorksheet 7, AddWorksheet (ustr ''Mix'') 2 3,
      Update 1 (sheet_rows [song0])] \<and>
   calls (fst (create_sheets_worksheet ascii_only (ustr ''Mix!'') [song0] empty_book)) =
     [GetWorksheet (ustr ''Mix''), AddWorksheet (ustr ''Mix'') 2 3,
      Update 1 (sheet_rows [song0])]"
proof -
  have n: "clean_sheet_name ascii_only (ustr ''Mix!'') = ustr ''Mix''"
    by (simp add: clean_sheet_name_def strip_def remove_invalid_def is_word_def is_space_def
        ascii_alnum_def ascii_space_def ustr_def)
  have h0: "find (\<lambda>w. ws_title w = clean_sheet_name ascii_only (ustr ''Mix!'')) (sheets book0) =
      Some (hd (sheets book0))"
    unfolding n by (simp add: book0_def)
  have h1: "find (\<lambda>w. ws_title w = clean_sheet_name ascii_only (ustr ''Mix!'')) (sheets empty_book) = None"
    by (simp add: empty_book_def)
  have k0: "ws_id (last (sheets (fst (create_sheets_worksheet ascii_only (ustr ''Mix!'') [song0] book0)))) = 1"
    by code_simp
  have k1: "ws_id (last (sheets (fst (create_sheets_worksheet ascii_only (ustr ''Mix!'') [song0] empty_book)))) = 1"
    by code_simp
  have a: "calls (fst (create_sheets_worksheet ascii_only (ustr ''Mix!'') [song0] book0)) =
      calls book0 @
        [GetWorksheet (clean_sheet_name ascii_only (ustr ''Mix!'')), DelWorksheet (ws_id (hd (sheets book0))),
         AddWorksheet (clean_sheet_name ascii_only (ustr ''Mix!'')) (length [song0] + 1) 3,
         Update (ws_id (last (sheets (fst (create_sheets_worksheet ascii_only (ustr ''Mix!'') [song0] book0)))))
           (sheet_rows [song0])]"
    by (rule replace_on_rerun[where U = ascii_only and ss = book0 and tracks = "[song0]",
          THEN conjunct1, THEN mp, OF h0, THEN conjunct1])
  have b: "calls (fst (create_sheets_worksheet ascii_only (ustr ''Mix!'') [song0] empty_book)) =
      calls empty_book @
        [GetWorksheet (clean_sheet_name ascii_only (ustr ''Mix!'')),
         AddWorksheet (clean_sheet_name ascii_only (ustr ''Mix!'')) (length [song0] + 1) 3,
         Update (ws_id (last (sheets (fst (create_sheets_worksheet ascii_only (ustr ''Mix!'') [song0] empty_book)))))
           (sheet_rows [song0])]"
    by (rule replace_on_rerun[where U = ascii_only and ss = empty_book and tracks = "[song0]",
          THEN conjunct2, THEN conjunct1, THEN mp, OF h1, THEN conjunct1])
  have a': "calls (fst (create_sheets_worksheet ascii_only (ustr ''Mix!'') [song0] book0)) =
     [GetWorksheet (ustr ''Mix''), DelWorksheet 7, AddWorksheet (ustr ''Mix'') 2 3,
      Update 1 (sheet_rows [song0])]"
    using a unfolding k0 n by (simp add: book0_def)
  have b': "calls (fst (create_sheets_worksheet ascii_only (ustr ''Mix!'') [song0] empty_book)) =
     [GetWorksheet (ustr ''Mix''), AddWorksheet (ustr ''Mix'') 2 3,
      Update 1 (sheet_rows [song0])]"
    using b unfolding k1 n by (simp add: empty_book_def)
  show ?thesis using a' b' by (rule conjI)
qed

section \<open>Liked tracks: the printed lines\<close>


















section \<open>Rows of the file variant\<close>

text \<open>
  Claim C10. \<open>FIELDS\<close> has the eleven names in the stated order. For every track
  element, the row has exactly eleven entries, the \<open>k\<close>-th being the element's value of
  the \<open>k\<close>-th field, or the empty string when the element lacks that attribute. The
  payload is the header followed by one row per element, in order, every row of it with
  \<open>len(FIELDS)\<close> entries; the worksheet the script writes holds exactly this payload and
  is created with \<open>len(rows) + 1\<close> rows and \<open>len(FIELDS)\<close> columns.
\<close>

theorem xml_rows_rectangular:
  "FIELDS =
     [ustr ''TrackID'', ustr ''Name'', ustr ''Artist'', ustr ''Album'', ustr ''Genre'',
      ustr ''TotalTime'', ustr ''AverageBpm'', ustr ''DateAdded'', ustr ''PlayCount'',
      ustr ''Rating'', ustr ''Location''] \<and>
   length FIELDS = 11 \<and>
   length (xml_row attrib) = 11 \<and>
   (\<forall>k<11. xml_row attrib ! k = (case attrib (FIELDS ! k) of None \<Rightarrow> [] | Some v \<Rightarrow> v)) \<and>
   length (payload (xml_rows elems)) = length elems + 1 \<and>
   hd (payload (xml_rows elems)) = FIELDS \<and>
   (\<forall>j<length elems. payload (xml_rows elems) ! (j + 1) = xml_row (elems ! j)) \<and>
   (\<forall>r \<in> set (payload (xml_rows elems)). length r = length FIELDS) \<and>
   (truthy_str (env (ustr ''REKORDBOX_XML_PATH'')) \<and>
    truthy_str (env (ustr ''GDRIVE_CREDENTIALS_PATH'')) \<and>
    truthy_str (env (ustr ''SPREADSHEET_ID''))
    \<longrightarrow> ws_cells (last (sheets (book (xml_to_sheets env today elems ss)))) =
           map (map StrCell) (payload (xml_rows elems)) \<and>
        ws_nrows (last (sheets (book (xml_to_sheets env today elems ss)))) = length elems + 1 \<and>
        ws_ncols (last (sheets (book (xml_to_sheets env today elems ss)))) = length FIELDS \<and>
        (\<forall>r \<in> set (ws_cells (last (sheets (book (xml_to_sheets env today elems ss))))).
           length r = length FIELDS))"
proof (intro conjI)
  show "FIELDS =
     [ustr ''TrackID'', ustr ''Name'', ustr ''Artist'', ustr ''Album'', ustr ''Genre'',
      ustr ''TotalTime'', ustr ''AverageBpm'', ustr ''DateAdded'', ustr ''PlayCount'',
      ustr ''Rating'', ustr ''Location'']"
    by (simp add: FIELDS_def)
  show "length FIELDS = 11" by (rule length_FIELDS)
  show "length (xml_row attrib) = 11" by (rule length_xml_row)
  show "\<forall>k<11. xml_row attrib ! k = (case attrib (FIELDS ! k) of None \<Rightarrow> [] | Some v \<Rightarrow> v)"
    by (simp add: xml_row_def attrib_get_def length_FIELDS)
  show "length (payload (xml_rows elems)) = length elems + 1"
    by (simp add: payload_def xml_rows_def)
  show "hd (payload (xml_rows elems)) = FIELDS"
    by (simp add: payload_def)
  show "\<forall>j<length elems. payload (xml_rows elems) ! (j + 1) = xml_row (elems ! j)"
    by (simp add: payload_def xml_rows_def)
  show "\<forall>r \<in> set (payload (xml_rows elems)). length r = length FIELDS"
    using payload_rectangular by blast
  show "truthy_str (env (ustr ''REKORDBOX_XML_PATH'')) \<and>
    truthy_str (env (ustr ''GDRIVE_CREDENTIALS_PATH'')) \<and>
    truthy_str (env (ustr ''SPREADSHEET_ID''))
    \<longrightarrow> ws_cells (last (sheets (book (xml_to_sheets env today elems ss)))) =
           map (map StrCell) (payload (xml_rows elems)) \<and>
        ws_nrows (last (sheets (book (xml_to_sheets env today elems ss)))) = length elems + 1 \<and>
        ws_ncols (last (sheets (book (xml_to_sheets env today elems ss)))) = length FIELDS \<and>
        (\<forall>r \<in> set (ws_cells (last (sheets (book (xml_to_sheets env today elems ss))))).
           length r = length FIELDS)"
  proof
    assume e: "truthy_str (env (ustr ''REKORDBOX_XML_PATH'')) \<and>
      truthy_str (env (ustr ''GDRIVE_CREDENTIALS_PATH'')) \<and>
      truthy_str (env (ustr ''SPREADSHEET_ID''))"
    then have w: "last (sheets (book (xml_to_sheets env today elems ss))) =
        \<lparr>ws_id = fresh_id (fst (delete_existing ss today)), ws_title = today,
         ws_nrows = length elems + 1, ws_ncols = length FIELDS,
         ws_cells = map (map StrCell) (payload (xml_rows elems))\<rparr>"
      by (simp add: xml_to_sheets_eq Let_def add_then_update xml_rows_def)
    have "\<forall>r \<in> set (map (map StrCell) (payload (xml_rows elems))). length r = length FIELDS"
      using payload_rectangular by auto
    then show "ws_cells (last (sheets (book (xml_to_sheets env today elems ss)))) =
           map (map StrCell) (payload (xml_rows elems)) \<and>
        ws_nrows (last (sheets (book (xml_to_sheets env today elems ss)))) = length elems + 1 \<and>
        ws_ncols (last (sheets (book (xml_to_sheets env today elems ss)))) = length FIELDS \<and>
        (\<forall>r \<in> set (ws_cells (last (sheets (book (xml_to_sheets env today elems ss))))).
           length r = length FIELDS)"
      unfolding w by simp
  qed
qed

theorem xml_rows_rectangular_witness:
  "xml_row attrib0 ! 0 = ustr ''1'' \<and> xml_row attrib0 ! 1 = ustr ''x'' \<and>
   xml_row attrib0 ! 3 = [] \<and> length (xml_row attrib0) = 11 \<and>
   ws_ncols (last (sheets (book (xml_to_sheets full_env (ustr ''2025-04-26'') [attrib0] empty_book)))) = 11"
proof -
  note t = xml_rows_rectangular[of attrib0 "[attrib0]" full_env "ustr ''2025-04-26''" empty_book]
  have k: "\<forall>k<11. xml_row attrib0 ! k = (case attrib0 (FIELDS ! k) of None \<Rightarrow> [] | Some v \<Rightarrow> v)"
    using t by blast
  have e: "truthy_str (full_env (ustr ''REKORDBOX_XML_PATH'')) \<and>
    truthy_str (full_env (ustr ''GDRIVE_CREDENTIALS_PATH'')) \<and>
    truthy_str (full_env (ustr ''SPREADSHEET_ID''))"
    by (simp add: full_env_def truthy_str_def ustr_def)
  have c: "ws_ncols (last (sheets (book (xml_to_sheets full_env (ustr ''2025-04-26'') [attrib0] empty_book)))) =
      length FIELDS"
    using t e by blast
  have "xml_row attrib0 ! 0 = ustr ''1''"
    using k by (simp add: FIELDS_def attrib0_def ustr_def)
  moreover have "xml_row attrib0 ! 1 = ustr ''x''"
    using k by (simp add: FIELDS_def attrib0_def ustr_def)
  moreover have "xml_row attrib0 ! 3 = []"
    using k by (simp add: FIELDS_def attrib0_def ustr_def)
  moreover have "length (xml_row attrib0) = 11" using t by blast
  moreover have "ws_ncols (last (sheets (book (xml_to_sheets full_env (ustr ''2025-04-26'') [attrib0] empty_book)))) = 11"
    using c t by simp
  ultimately show ?thesis by blast
qed

end
